theory Spec2Isabelle
  imports Complex_Main "HOL-Library.Log_Nat" "HOL-Library.Sublist"
begin

section \<open>JavaScript numbers\<close>

text \<open>
  A JavaScript \<^verbatim>\<open>number\<close> is an IEEE 754 binary64 value. A finite one is modelled by the
  rational number it denotes. \<^verbatim>\<open>+\<close>, \<^verbatim>\<open>-\<close>, \<^verbatim>\<open>*\<close> and \<^verbatim>\<open>/\<close> compute the exact result
  and round it to the nearest binary64 value, ties to the even significand
  (\<open>binary64\<close>); \<^verbatim>\<open>%\<close> and \<^verbatim>\<open>Math.floor\<close> are exact. Infinities and NaN are not
  modelled: cue times are finite, and no operation of the subtitle code can overflow
  (it divides, takes remainders, and multiplies a value below 1 by 1000).
\<close>

type_synonym number = rat

definition flog2 :: "rat \<Rightarrow> int" where
  \<comment> \<open>\<open>\<lfloor>log\<^sub>2 x\<rfloor>\<close> for \<open>0 < x\<close>\<close>
  "flog2 x = (if 1 \<le> x then bitlen \<lfloor>x\<rfloor> - 1 else - bitlen (\<lceil>1 / x\<rceil> - 1))"

definition expo :: "rat \<Rightarrow> int" where
  \<comment> \<open>exponent of the last place of the binary64 values around \<open>x\<close>: 53 significant
      bits, and \<open>2\<^sup>-\<^sup>1\<^sup>0\<^sup>7\<^sup>4\<close> in the subnormal range\<close>
  "expo x = max (- 1074) (flog2 x - 52)"

definition rhe :: "rat \<Rightarrow> int" where
  \<comment> \<open>round to the nearest integer, ties to even\<close>
  "rhe y = (let f = \<lfloor>y\<rfloor>; r = y - of_int f in
     if r < 1 / 2 then f else if 1 / 2 < r then f + 1 else if even f then f else f + 1)"

definition binary64 :: "rat \<Rightarrow> number" where
  "binary64 x = (if x = 0 then 0
     else if 0 < x then of_int (rhe (x / 2 powi expo x)) * 2 powi expo x
     else - (of_int (rhe (- x / 2 powi expo (- x))) * 2 powi expo (- x)))"

definition is_binary64 :: "rat \<Rightarrow> bool" where
  "is_binary64 x \<longleftrightarrow> binary64 x = x"

definition fadd :: "number \<Rightarrow> number \<Rightarrow> number" where
  "fadd x y = binary64 (x + y)"

definition fsub :: "number \<Rightarrow> number \<Rightarrow> number" where
  "fsub x y = binary64 (x - y)"

definition fmul :: "number \<Rightarrow> number \<Rightarrow> number" where
  "fmul x y = binary64 (x * y)"

definition fdiv :: "number \<Rightarrow> number \<Rightarrow> number" where
  "fdiv x y = binary64 (x / y)"

definition jsmod :: "number \<Rightarrow> number \<Rightarrow> number" where
  \<comment> \<open>\<^verbatim>\<open>x % y\<close>: the remainder of the division truncated towards zero; it carries the
      sign of \<open>x\<close> and is computed without rounding\<close>
  "jsmod x y = x - y * of_int (if 0 \<le> x / y then \<lfloor>x / y\<rfloor> else \<lceil>x / y\<rceil>)"

definition Math_floor :: "number \<Rightarrow> number" where
  "Math_floor x = of_int \<lfloor>x\<rfloor>"

section \<open>Strings\<close>

text \<open>
  A string is the list of the bytes of its UTF-8 encoding, the encoding of the source
  file and of the downloaded \<^verbatim>\<open>.srt\<close> file. The program concatenates and compares
  strings and pads strings of decimal digits, which is the same on bytes and on
  UTF-16 code units.
\<close>

definition digit_char :: "nat \<Rightarrow> char" where
  \<comment> \<open>the character of a decimal digit; \<open>0\<close> has code 48\<close>
  "digit_char d = char_of (48 + d)"

fun string_of_nat :: "nat \<Rightarrow> string" where
  \<comment> \<open>the decimal digits of a natural number, most significant first\<close>
  "string_of_nat n =
     (let last_digit = [digit_char (n mod 10)]
      in if n < 10 then last_digit else string_of_nat (n div 10) @ last_digit)"

declare string_of_nat.simps [simp del]

definition toString :: "number \<Rightarrow> string" where
  \<comment> \<open>\<^verbatim>\<open>Number.prototype.toString\<close> on an integer-valued number below \<open>10\<^sup>2\<^sup>1\<close> in
      magnitude (the only numbers the program prints): plain decimal digits\<close>
  "toString x =
     (if x < 0 then ''-'' @ string_of_nat (nat (- \<lfloor>x\<rfloor>)) else string_of_nat (nat \<lfloor>x\<rfloor>))"

definition padStart :: "nat \<Rightarrow> char \<Rightarrow> string \<Rightarrow> string" where
  "padStart n c s = replicate (n - length s) c @ s"

fun join :: "string \<Rightarrow> string list \<Rightarrow> string" where
  "join sep [] = []"
| "join sep [x] = x"
| "join sep (x # y # ys) = x @ sep @ join sep (y # ys)"

section \<open>Subtitle model\<close>

record SubtitleCue =
  start :: number
  end' :: number
  text' :: string

record SubtitleData =
  language :: string
  cues :: "SubtitleCue list"
  srt :: string

definition formatSRTTime :: "number \<Rightarrow> string" where
  "formatSRTTime seconds =
     (let hours = Math_floor (fdiv seconds 3600);
          minutes = Math_floor (fdiv (jsmod seconds 3600) 60);
          secs = Math_floor (jsmod seconds 60);
          milliseconds = Math_floor (fmul (jsmod seconds 1) 1000)
      in padStart 2 CHR ''0'' (toString hours) @ '':'' @
         padStart 2 CHR ''0'' (toString minutes) @ '':'' @
         padStart 2 CHR ''0'' (toString secs) @ '','' @
         padStart 3 CHR ''0'' (toString milliseconds))"

text \<open>The canned lines of \<^verbatim>\<open>subtitleTexts\<close>, one list per language code.\<close>

definition texts_en :: "string list" where
  "texts_en =
    [''Welcome to this video demonstration.'',
     ''This showcases our advanced subtitle system.'',
     ''Powered by OpenAI Whisper technology.'',
     ''With precise word-level timing synchronization.'',
     ''Supporting multiple languages and styles.'']"

definition texts_ur :: "string list" where
  "texts_ur =
    [[CHR 0xD8, CHR 0xA7, CHR 0xD8, CHR 0xB3] @ '' '' @ [CHR 0xD9, CHR 0x88, CHR 0xDB,
       CHR 0x8C, CHR 0xDA, CHR 0x88, CHR 0xDB, CHR 0x8C, CHR 0xD9, CHR 0x88] @ '' '' @
       [CHR 0xDA, CHR 0x88, CHR 0xDB, CHR 0x8C, CHR 0xD9, CHR 0x85, CHR 0xD9, CHR 0x88,
       CHR 0xD9, CHR 0x86, CHR 0xD8, CHR 0xB3, CHR 0xD9, CHR 0xB9, CHR 0xD8, CHR 0xB1,
       CHR 0xDB, CHR 0x8C, CHR 0xD8, CHR 0xB4, CHR 0xD9, CHR 0x86] @ '' '' @ [CHR 0xD9,
       CHR 0x85, CHR 0xDB, CHR 0x8C, CHR 0xDA, CHR 0xBA] @ '' '' @ [CHR 0xD8, CHR 0xAE,
       CHR 0xD9, CHR 0x88, CHR 0xD8, CHR 0xB4] @ '' '' @ [CHR 0xD8, CHR 0xA2, CHR 0xD9,
       CHR 0x85, CHR 0xD8, CHR 0xAF, CHR 0xDB, CHR 0x8C, CHR 0xD8, CHR 0xAF, CHR 0xDB,
       CHR 0x94],
     [CHR 0xDB, CHR 0x8C, CHR 0xDB, CHR 0x81] @ '' '' @ [CHR 0xDB, CHR 0x81, CHR 0xD9,
       CHR 0x85, CHR 0xD8, CHR 0xA7, CHR 0xD8, CHR 0xB1, CHR 0xDB, CHR 0x92] @ '' '' @
       [CHR 0xD8, CHR 0xAC, CHR 0xD8, CHR 0xAF, CHR 0xDB, CHR 0x8C, CHR 0xD8, CHR 0xAF] @
       '' '' @ [CHR 0xD8, CHR 0xB3, CHR 0xD8, CHR 0xA8] @ '' '' @ [CHR 0xD9, CHR 0xB9,
       CHR 0xD8, CHR 0xA7, CHR 0xD8, CHR 0xA6, CHR 0xD9, CHR 0xB9, CHR 0xD9, CHR 0x84] @
       '' '' @ [CHR 0xD8, CHR 0xB3, CHR 0xD8, CHR 0xB3, CHR 0xD9, CHR 0xB9, CHR 0xD9,
       CHR 0x85] @ '' '' @ [CHR 0xDA, CHR 0xA9, CHR 0xD9, CHR 0x88] @ '' '' @ [CHR 0xD8,
       CHR 0xB8, CHR 0xD8, CHR 0xA7, CHR 0xDB, CHR 0x81, CHR 0xD8, CHR 0xB1] @ '' '' @
       [CHR 0xDA, CHR 0xA9, CHR 0xD8, CHR 0xB1, CHR 0xD8, CHR 0xAA, CHR 0xD8, CHR 0xA7] @
       '' '' @ [CHR 0xDB, CHR 0x81, CHR 0xDB, CHR 0x92, CHR 0xDB, CHR 0x94],
     ''OpenAI Whisper '' @ [CHR 0xD9, CHR 0xB9, CHR 0xDB, CHR 0x8C, CHR 0xDA, CHR 0xA9,
       CHR 0xD9, CHR 0x86, CHR 0xD8, CHR 0xA7, CHR 0xD9, CHR 0x84, CHR 0xD9, CHR 0x88,
       CHR 0xD8, CHR 0xAC, CHR 0xDB, CHR 0x8C] @ '' '' @ [CHR 0xD8, CHR 0xB3, CHR 0xDB,
       CHR 0x92] @ '' '' @ [CHR 0xD8, CHR 0xB7, CHR 0xD8, CHR 0xA7, CHR 0xD9, CHR 0x82,
       CHR 0xD8, CHR 0xAA] @ '' '' @ [CHR 0xDB, CHR 0x8C, CHR 0xD8, CHR 0xA7, CHR 0xD9,
       CHR 0x81, CHR 0xD8, CHR 0xAA, CHR 0xDB, CHR 0x81, CHR 0xDB, CHR 0x94],
     [CHR 0xD8, CHR 0xAF, CHR 0xD8, CHR 0xB1, CHR 0xD8, CHR 0xB3, CHR 0xD8, CHR 0xAA] @
       '' '' @ [CHR 0xD9, CHR 0x84, CHR 0xD9, CHR 0x81, CHR 0xD8, CHR 0xB8] @ '' '' @
       [CHR 0xDA, CHR 0xA9, CHR 0xDB, CHR 0x8C] @ '' '' @ [CHR 0xD8, CHR 0xB3, CHR 0xD8,
       CHR 0xB7, CHR 0xD8, CHR 0xAD] @ '' '' @ [CHR 0xDA, CHR 0xA9, CHR 0xDB, CHR 0x92] @
       '' '' @ [CHR 0xD9, CHR 0x88, CHR 0xD9, CHR 0x82, CHR 0xD8, CHR 0xAA] @ '' '' @
       [CHR 0xDA, CHR 0xA9, CHR 0xDB, CHR 0x8C] @ '' '' @ [CHR 0xDB, CHR 0x81, CHR 0xD9,
       CHR 0x85] @ '' '' @ [CHR 0xD8, CHR 0xA2, CHR 0xDB, CHR 0x81, CHR 0xD9, CHR 0x86,
       CHR 0xDA, CHR 0xAF, CHR 0xDB, CHR 0x8C] @ '' '' @ [CHR 0xDA, CHR 0xA9, CHR 0xDB,
       CHR 0x92] @ '' '' @ [CHR 0xD8, CHR 0xB3, CHR 0xD8, CHR 0xA7, CHR 0xD8, CHR 0xAA,
       CHR 0xDA, CHR 0xBE, CHR 0xDB, CHR 0x94],
     [CHR 0xD9, CHR 0x85, CHR 0xD8, CHR 0xAA, CHR 0xD8, CHR 0xB9, CHR 0xD8, CHR 0xAF,
       CHR 0xD8, CHR 0xAF] @ '' '' @ [CHR 0xD8, CHR 0xB2, CHR 0xD8, CHR 0xA8, CHR 0xD8,
       CHR 0xA7, CHR 0xD9, CHR 0x86, CHR 0xD9, CHR 0x88, CHR 0xDA, CHR 0xBA] @ '' '' @
       [CHR 0xD8, CHR 0xA7, CHR 0xD9, CHR 0x88, CHR 0xD8, CHR 0xB1] @ '' '' @ [CHR 0xD8,
       CHR 0xA7, CHR 0xD9, CHR 0x86, CHR 0xD8, CHR 0xAF, CHR 0xD8, CHR 0xA7, CHR 0xD8,
       CHR 0xB2] @ '' '' @ [CHR 0xDA, CHR 0xA9, CHR 0xDB, CHR 0x8C] @ '' '' @ [CHR 0xD8,
       CHR 0xAD, CHR 0xD9, CHR 0x85, CHR 0xD8, CHR 0xA7, CHR 0xDB, CHR 0x8C, CHR 0xD8,
       CHR 0xAA] @ '' '' @ [CHR 0xDA, CHR 0xA9, CHR 0xD8, CHR 0xB1, CHR 0xD8, CHR 0xAA,
       CHR 0xD8, CHR 0xA7] @ '' '' @ [CHR 0xDB, CHR 0x81, CHR 0xDB, CHR 0x92, CHR 0xDB,
       CHR 0x94]]"

definition texts_ru_ur :: "string list" where
  "texts_ru_ur =
    [''Is video demonstration mein khush aamdeed.'',
     ''Yeh hamara advanced subtitle system dikhata hai.'',
     ''OpenAI Whisper technology se powered.'',
     ''Precise word-level timing sync ke saath.'',
     ''Multiple languages aur styles support karta hai.'']"

definition texts_es :: "string list" where
  "texts_es =
    [''Bienvenido a esta demostraci'' @ [CHR 0xC3, CHR 0xB3] @ ''n de video.'',
     ''Esto muestra nuestro sistema avanzado de subt'' @ [CHR 0xC3, CHR 0xAD] @
       ''tulos.'',
     ''Impulsado por la tecnolog'' @ [CHR 0xC3, CHR 0xAD] @ ''a OpenAI Whisper.'',
     ''Con sincronizaci'' @ [CHR 0xC3, CHR 0xB3] @ ''n precisa a nivel de palabra.'',
     ''Compatible con m'' @ [CHR 0xC3, CHR 0xBA] @ ''ltiples idiomas y estilos.'']"

definition texts_fr :: "string list" where
  "texts_fr =
    [''Bienvenue dans cette d'' @ [CHR 0xC3, CHR 0xA9] @ ''monstration vid'' @ [CHR 0xC3,
       CHR 0xA9] @ ''o.'',
     ''Ceci pr'' @ [CHR 0xC3, CHR 0xA9] @ ''sente notre syst'' @ [CHR 0xC3, CHR 0xA8] @
       ''me de sous-titres avanc'' @ [CHR 0xC3, CHR 0xA9] @ ''.'',
     ''Aliment'' @ [CHR 0xC3, CHR 0xA9] @ '' par la technologie OpenAI Whisper.'',
     ''Avec synchronisation pr'' @ [CHR 0xC3, CHR 0xA9] @ ''cise au niveau des mots.'',
     ''Prenant en charge plusieurs langues et styles.'']"

definition texts_de :: "string list" where
  "texts_de =
    [''Willkommen zu dieser Video-Demonstration.'',
     ''Dies zeigt unser fortschrittliches Untertitelsystem.'',
     ''Angetrieben von OpenAI Whisper-Technologie.'',
     ''Mit pr'' @ [CHR 0xC3, CHR 0xA4] @ ''ziser Synchronisation auf Wortebene.'',
     ''Unterst'' @ [CHR 0xC3, CHR 0xBC] @ ''tzt mehrere Sprachen und Stile.'']"

definition subtitleTexts :: "(string \<times> string list) list" where
  "subtitleTexts =
     [(''en'', texts_en), (''ur'', texts_ur), (''ru-ur'', texts_ru_ur),
      (''es'', texts_es), (''fr'', texts_fr), (''de'', texts_de)]"

text \<open>
  \<^verbatim>\<open>subtitleTexts\<close> is an object literal, so a property read that finds no own property
  continues in \<^verbatim>\<open>Object.prototype\<close>. For the names below the read yields a function
  (for \<^verbatim>\<open>__proto__\<close> the prototype object): a truthy value without a \<^verbatim>\<open>map\<close> method, so
  that \<^verbatim>\<open>texts.map(...)\<close> throws a TypeError.
\<close>

definition objectPrototypeKeys :: "string list" where
  "objectPrototypeKeys =
     [''constructor'', ''hasOwnProperty'', ''isPrototypeOf'', ''propertyIsEnumerable'',
      ''toLocaleString'', ''toString'', ''valueOf'', ''__proto__'',
      ''__defineGetter__'', ''__defineSetter__'', ''__lookupGetter__'',
      ''__lookupSetter__'']"

datatype js_exception = TypeError

definition makeCues :: "string list \<Rightarrow> SubtitleCue list" where
  \<comment> \<open>\<^verbatim>\<open>texts.map((text, index) => ({start: index * 4, end: (index + 1) * 4 - 0.5, text}))\<close>\<close>
  "makeCues texts =
     map (\<lambda>(index, text).
            \<lparr>start = fmul (of_nat index) 4,
             end' = fsub (fmul (fadd (of_nat index) 1) 4) (1 / 2),
             text' = text\<rparr>)
         (enumerate 0 texts)"

definition encodeSRT :: "SubtitleCue list \<Rightarrow> string" where
  \<comment> \<open>the \<^verbatim>\<open>cues.map(...).join('\n')\<close> expression of \<^verbatim>\<open>generateMockSubtitleData\<close>\<close>
  "encodeSRT cs =
     join [CHR 0x0A]
       (map (\<lambda>(index, cue).
               (let startTime = formatSRTTime (start cue);
                    endTime = formatSRTTime (end' cue)
                in toString (fadd (of_nat index) 1) @ [CHR 0x0A] @
                   startTime @ '' --> '' @ endTime @ [CHR 0x0A] @
                   text' cue @ [CHR 0x0A]))
            (enumerate 0 cs))"

definition generateMockSubtitleData :: "string \<Rightarrow> js_exception + SubtitleData" where
  "generateMockSubtitleData lang =
     (case map_of subtitleTexts lang of
        Some texts \<Rightarrow>
          Inr \<lparr>language = lang, cues = makeCues texts, srt = encodeSRT (makeCues texts)\<rparr>
      | None \<Rightarrow>
          if lang \<in> set objectPrototypeKeys then Inl TypeError
          else Inr \<lparr>language = lang, cues = makeCues texts_en,
                    srt = encodeSRT (makeCues texts_en)\<rparr>)"

text \<open>The language selector: code and name of each option (the flag is decoration).\<close>

definition languageOptions :: "(string \<times> string) list" where
  "languageOptions =
     [(''en'', ''English''), (''ur'', ''Urdu''), (''ru-ur'', ''Roman Urdu''),
      (''es'', ''Spanish''), (''fr'', ''French''), (''de'', ''German''),
      (''it'', ''Italian''), (''pt'', ''Portuguese''), (''ru'', ''Russian''),
      (''ja'', ''Japanese''), (''ko'', ''Korean''), (''zh'', ''Chinese'')]"

section \<open>Reference notions for the timestamps\<close>

definition srtMillis :: "number \<Rightarrow> int" where
  \<comment> \<open>the number of milliseconds that \<open>formatSRTTime\<close> prints: the whole seconds and the
      value of its \<^verbatim>\<open>milliseconds\<close> variable\<close>
  "srtMillis s = 1000 * \<lfloor>s\<rfloor> + \<lfloor>fmul (jsmod s 1) 1000\<rfloor>"

definition pad :: "nat \<Rightarrow> nat \<Rightarrow> string" where
  \<comment> \<open>decimal digits, padded with zeros on the left to at least \<open>w\<close> characters\<close>
  "pad w n = padStart w CHR ''0'' (string_of_nat n)"

definition srtTimestamp :: "nat \<Rightarrow> string" where
  \<comment> \<open>Following the specification: the timestamp \<^verbatim>\<open>HH:MM:SS,mmm\<close> of a whole number of
      milliseconds, with integer hours, minutes and seconds\<close>
  "srtTimestamp ms =
     (let s = ms div 1000
      in pad 2 (s div 3600) @ '':'' @ pad 2 (s div 60 mod 60) @ '':'' @
         pad 2 (s mod 60) @ '','' @ pad 3 (ms mod 1000))"

section \<open>A reference SRT parser\<close>

text \<open>
  Modelled from the spec: the repository has no SRT parser (\<^verbatim>\<open>decodeSRT\<close> is outside its
  scope), so the parser against which the round trip of the encoder is stated follows the
  format of section 4.4 of the specification: blocks separated by blank lines, each with
  an index line holding the 1-based position, a line
  \<^verbatim>\<open>HH:MM:SS,mmm --> HH:MM:SS,mmm\<close>, and the lines of the text. Times are read exactly, as
  a whole number of milliseconds.
\<close>

definition digit :: "char \<Rightarrow> nat option" where
  "digit c = (let n = of_char c :: nat in if 48 \<le> n \<and> n \<le> 57 then Some (n - 48) else None)"

fun parse_digits :: "nat \<Rightarrow> string \<Rightarrow> nat option" where
  "parse_digits acc [] = Some acc"
| "parse_digits acc (c # cs) =
     (case digit c of None \<Rightarrow> None | Some d \<Rightarrow> parse_digits (10 * acc + d) cs)"

definition parse_nat :: "string \<Rightarrow> nat option" where
  "parse_nat s = (if s = [] then None else parse_digits 0 s)"

definition parseSRTTime :: "string \<Rightarrow> number option" where
  "parseSRTTime str =
     (case rev str of
        m3 # m2 # m1 # c1 # s2 # s1 # c2 # n2 # n1 # c3 # hrev \<Rightarrow>
          (if c1 = CHR '','' \<and> c2 = CHR '':'' \<and> c3 = CHR '':'' \<and> 2 \<le> length hrev then
             (case (parse_nat (rev hrev), parse_nat [n1, n2], parse_nat [s1, s2],
                    parse_nat [m1, m2, m3]) of
                (Some h, Some mi, Some s, Some ms) \<Rightarrow>
                  Some (of_nat (h * 3600 + mi * 60 + s) + of_nat ms / 1000)
              | _ \<Rightarrow> None)
           else None)
      | _ \<Rightarrow> None)"

definition parseTiming :: "string \<Rightarrow> (number \<times> number) option" where
  "parseTiming l =
     (let a = takeWhile (\<lambda>c. c \<noteq> CHR '' '') l; r = dropWhile (\<lambda>c. c \<noteq> CHR '' '') l
      in if take 5 r = '' --> '' then
           (case (parseSRTTime a, parseSRTTime (drop 5 r)) of
              (Some x, Some y) \<Rightarrow> Some (x, y)
            | _ \<Rightarrow> None)
         else None)"

fun splitOn :: "char \<Rightarrow> string \<Rightarrow> string list" where
  "splitOn c [] = [[]]"
| "splitOn c (x # xs) =
     (if x = c then [] # splitOn c xs
      else (case splitOn c xs of l # ls \<Rightarrow> (x # l) # ls | [] \<Rightarrow> [[x]]))"

datatype parser_state = ExpectIndex | ExpectTiming | InText number number "string list"

fun decodeLines :: "parser_state \<Rightarrow> nat \<Rightarrow> SubtitleCue list \<Rightarrow> string list \<Rightarrow> SubtitleCue list option" where
  "decodeLines ExpectIndex n acc [] = Some (rev acc)"
| "decodeLines ExpectIndex n acc (l # ls) =
     (if l = [] then decodeLines ExpectIndex n acc ls
      else if parse_nat l = Some n then decodeLines ExpectTiming n acc ls
      else None)"
| "decodeLines ExpectTiming n acc [] = None"
| "decodeLines ExpectTiming n acc (l # ls) =
     (case parseTiming l of
        None \<Rightarrow> None
      | Some (a, b) \<Rightarrow> decodeLines (InText a b []) n acc ls)"
| "decodeLines (InText a b ts) n acc [] =
     Some (rev (\<lparr>start = a, end' = b, text' = join [CHR 0x0A] ts\<rparr> # acc))"
| "decodeLines (InText a b ts) n acc (l # ls) =
     (if l = []
      then decodeLines ExpectIndex (n + 1)
             (\<lparr>start = a, end' = b, text' = join [CHR 0x0A] ts\<rparr> # acc) ls
      else decodeLines (InText a b (ts @ [l])) n acc ls)"

definition decodeSRT :: "string \<Rightarrow> SubtitleCue list option" where
  "decodeSRT s = decodeLines ExpectIndex 1 [] (splitOn (CHR 0x0A) s)"

text \<open>
  Auxiliary notions for the round trip: strings of decimal digits, and the text, the lines
  and the cue of block \<open>i\<close> of a generated track whose texts are \<open>X\<close>.
\<close>

definition digits :: "string \<Rightarrow> bool" where
  "digits s \<longleftrightarrow> (\<forall>c\<in>set s. digit c \<noteq> None)"

definition blockLines :: "(nat \<Rightarrow> string) \<Rightarrow> nat \<Rightarrow> string list" where
  "blockLines X i =
     [string_of_nat (i + 1),
      srtTimestamp (4000 * i) @ '' --> '' @ srtTimestamp (4000 * i + 3500), X i, []]"

definition blockText :: "(nat \<Rightarrow> string) \<Rightarrow> nat \<Rightarrow> string" where
  "blockText X i =
     string_of_nat (i + 1) @ [CHR 0x0A] @
     srtTimestamp (4000 * i) @ '' --> '' @ srtTimestamp (4000 * i + 3500) @
     [CHR 0x0A] @ X i @ [CHR 0x0A]"

definition blockCue :: "(nat \<Rightarrow> string) \<Rightarrow> nat \<Rightarrow> SubtitleCue" where
  "blockCue X i =
     \<lparr>start = of_nat (4000 * i) / 1000, end' = of_nat (4000 * i + 3500) / 1000, text' = X i\<rparr>"

section \<open>The Features component\<close>

text \<open>
  The repository holds two versions of the component \<^verbatim>\<open>Features\<close>: the page
  \<^verbatim>\<open>src/pages/Features.tsx\<close> (\<open>Pages\<close>), where every feature is processed by
  \<^verbatim>\<open>processVideo\<close>, and the editor with the video player and the live subtitles
  (\<open>Editor\<close>). \<^verbatim>\<open>uploadVideo\<close> and \<^verbatim>\<open>handleFileSelect\<close> differ between them by a few
  statements, \<^verbatim>\<open>startStatusCheck\<close> is the same in both.

  The model is a record of the state variables and refs of the component, together with
  what the runtime holds for it: the active timers and the pending calls of
  \<^verbatim>\<open>ApiService\<close>. Event handlers and the code after an \<^verbatim>\<open>await\<close> are functions from state
  to state. The code after an \<^verbatim>\<open>await\<close> is kept with the pending call as a continuation that
  carries the variables of its closure; the callback of a timer is kept with the timer
  as a task. State updates are applied in the order in which the code issues them.
\<close>

datatype version = Pages | Editor

record File =
  name :: string
  size' :: nat

record ProgressState =
  visible :: bool
  percentage :: number
  status' :: string

record VideoData =
  id' :: string
  filename :: string
  status :: string
  error :: "string option"

datatype level = Info | Success | Error

record ConsoleLog =
  message :: string
  type' :: level

datatype feature = Audio | Subtitles | Summarization | Enhancement | Thumbnail

datatype task =
    CheckStatus string
    \<comment> \<open>\<^verbatim>\<open>checkStatus\<close> of \<^verbatim>\<open>startStatusCheck(videoId)\<close>\<close>
  | UploadRamp
    \<comment> \<open>the progress interval of \<^verbatim>\<open>uploadVideo\<close>\<close>
  | ProcessingRamp feature string string number
    \<comment> \<open>the progress interval of \<^verbatim>\<open>processVideo\<close>: the feature of its \<^verbatim>\<open>progressSetter\<close>,
        \<^verbatim>\<open>successMessage\<close>, the \<^verbatim>\<open>uploadedVideoId\<close> of its closure, and its variable
        \<^verbatim>\<open>progress\<close>\<close>
  | SwitchTab
    \<comment> \<open>the timeout of \<^verbatim>\<open>uploadVideo\<close> in the editor\<close>
  | Stage nat string
    \<comment> \<open>the timeout before stage \<open>k\<close> of \<^verbatim>\<open>generateAdvancedSubtitles\<close>, with the
        \<^verbatim>\<open>subtitleLanguage\<close> of its closure\<close>

record timer =
  tid :: nat
  delay :: nat
  repeating :: bool
  task :: task

datatype request =
    UploadVideoRequest File
  | GetVideoStatusRequest string
  | ProcessVideoRequest string "string list"

datatype continuation =
    AfterUpload version nat
    \<comment> \<open>the rest of \<^verbatim>\<open>uploadVideo\<close>, with its \<^verbatim>\<open>progressInterval\<close>\<close>
  | AfterStatus
    \<comment> \<open>the rest of \<^verbatim>\<open>checkStatus\<close>\<close>
  | AfterProcess feature string string
    \<comment> \<open>the rest of \<^verbatim>\<open>processVideo\<close>: the feature of \<^verbatim>\<open>progressSetter\<close>,
        \<^verbatim>\<open>successMessage\<close> and \<^verbatim>\<open>uploadedVideoId\<close>\<close>

record call =
  cid :: nat
  request :: request
  continuation :: continuation

datatype reason = ErrorObject string | OtherValue
  \<comment> \<open>what a rejected promise carries: an \<^verbatim>\<open>Error\<close> with its message, or another value\<close>

datatype response =
    UploadResponse "string option"
    \<comment> \<open>the \<^verbatim>\<open>video_id\<close> of the response, if it has one\<close>
  | StatusResponse VideoData
  | ProcessResponse
  | Failure reason

record state =
  selectedFile :: "File option"
  videoSrc :: "nat option"
  uploadedVideoId :: "string option"
  videoData :: "VideoData option"
  consoleLogs :: "ConsoleLog list"
  toasts :: "(level \<times> string) list"
  isUploading :: bool
  uploadProgress :: number
  activeTab :: string
  currentTime :: number
  subtitleData :: "SubtitleData option"
  showSubtitles :: bool
  currentSubtitle :: string
  subtitleLanguage :: string
  subtitleStyle :: string
  isGeneratingSubtitles :: bool
  brightnessLevel :: number
  contrastLevel :: number
  previewFilters :: string
  thumbnailFrames :: "string list"
  selectedFrameIndex :: "nat option"
  generatedThumbnail :: "string option"
  audioProgress :: ProgressState
  subtitlesProgress :: ProgressState
  summarizationProgress :: ProgressState
  enhancementProgress :: ProgressState
  thumbnailProgress :: ProgressState
  statusCheckIntervalRef :: "nat option"
  timers :: "timer list"
  nextTimerId :: nat
  pending :: "call list"
  nextCallId :: nat
  nextObjectUrl :: nat
  apiLog :: "request list"

text \<open>
  The state of the component when it is mounted. The identifiers of browser timers are
  positive, so that a stored identifier is truthy.
\<close>

definition noProgress :: ProgressState where
  "noProgress = \<lparr>visible = False, percentage = 0, status' = ''''\<rparr>"

definition initial :: "version \<Rightarrow> state" where
  "initial v =
     \<lparr>selectedFile = None, videoSrc = None, uploadedVideoId = None, videoData = None,
      consoleLogs =
        [\<lparr>message = (if v = Pages then ''[System] SnipX Video Editor API Ready''
                      else ''[System] SnipX Advanced Video Editor Ready''),
          type' = Info\<rparr>],
      toasts = [], isUploading = False, uploadProgress = 0,
      activeTab = (if v = Pages then ''audio'' else ''upload''),
      currentTime = 0, subtitleData = None, showSubtitles = True, currentSubtitle = '''',
      subtitleLanguage = ''en'', subtitleStyle = (if v = Pages then ''clean'' else ''modern''),
      isGeneratingSubtitles = False,
      brightnessLevel = 100, contrastLevel = 100, previewFilters = '''',
      thumbnailFrames = [], selectedFrameIndex = None, generatedThumbnail = None,
      audioProgress = noProgress, subtitlesProgress = noProgress,
      summarizationProgress = noProgress, enhancementProgress = noProgress,
      thumbnailProgress = noProgress,
      statusCheckIntervalRef = None, timers = [], nextTimerId = 1,
      pending = [], nextCallId = 0, nextObjectUrl = 0, apiLog = []\<rparr>"

subsection \<open>Runtime: console, toasts, timers, calls\<close>

definition logToConsole :: "string \<Rightarrow> level \<Rightarrow> state \<Rightarrow> state" where
  "logToConsole msg lv st =
     st\<lparr>consoleLogs := consoleLogs st @ [\<lparr>message = msg, type' = lv\<rparr>]\<rparr>"

definition toast :: "level \<Rightarrow> string \<Rightarrow> state \<Rightarrow> state" where
  "toast lv msg st = st\<lparr>toasts := toasts st @ [(lv, msg)]\<rparr>"

definition setTimer :: "bool \<Rightarrow> task \<Rightarrow> nat \<Rightarrow> state \<Rightarrow> state" where
  \<comment> \<open>\<^verbatim>\<open>setInterval\<close> (repeating) and \<^verbatim>\<open>setTimeout\<close>; the new identifier is the value of
      \<open>nextTimerId\<close> before the call\<close>
  "setTimer rep t ms st =
     st\<lparr>timers := timers st @ [\<lparr>tid = nextTimerId st, delay = ms, repeating = rep, task = t\<rparr>],
        nextTimerId := nextTimerId st + 1\<rparr>"

definition clearInterval :: "nat \<Rightarrow> state \<Rightarrow> state" where
  "clearInterval i st = st\<lparr>timers := filter (\<lambda>t. tid t \<noteq> i) (timers st)\<rparr>"

definition issue :: "request \<Rightarrow> continuation \<Rightarrow> state \<Rightarrow> state" where
  \<comment> \<open>a call of \<^verbatim>\<open>ApiService\<close> that is awaited\<close>
  "issue r k st =
     st\<lparr>pending := pending st @ [\<lparr>cid = nextCallId st, request = r, continuation = k\<rparr>],
        nextCallId := nextCallId st + 1,
        apiLog := apiLog st @ [r]\<rparr>"

definition errorMessage :: "reason \<Rightarrow> string \<Rightarrow> string" where
  \<comment> \<open>\<^verbatim>\<open>error instanceof Error ? error.message : fallback\<close>\<close>
  "errorMessage r fallback = (case r of ErrorObject m \<Rightarrow> m | OtherValue \<Rightarrow> fallback)"

definition setProgress :: "feature \<Rightarrow> (ProgressState \<Rightarrow> ProgressState) \<Rightarrow> state \<Rightarrow> state" where
  \<comment> \<open>the \<^verbatim>\<open>progressSetter\<close> of a feature, applied to an updater function\<close>
  "setProgress f u st =
     (case f of
        Audio \<Rightarrow> st\<lparr>audioProgress := u (audioProgress st)\<rparr>
      | Subtitles \<Rightarrow> st\<lparr>subtitlesProgress := u (subtitlesProgress st)\<rparr>
      | Summarization \<Rightarrow> st\<lparr>summarizationProgress := u (summarizationProgress st)\<rparr>
      | Enhancement \<Rightarrow> st\<lparr>enhancementProgress := u (enhancementProgress st)\<rparr>
      | Thumbnail \<Rightarrow> st\<lparr>thumbnailProgress := u (thumbnailProgress st)\<rparr>)"

definition Math_round :: "number \<Rightarrow> number" where
  "Math_round x = of_int \<lfloor>x + 1 / 2\<rfloor>"

subsection \<open>Status polling\<close>

definition checkStatus :: "string \<Rightarrow> state \<Rightarrow> state" where
  \<comment> \<open>\<^verbatim>\<open>checkStatus\<close> up to its \<^verbatim>\<open>await\<close>\<close>
  "checkStatus videoId st = issue (GetVideoStatusRequest videoId) AfterStatus st"

definition startStatusCheck :: "string \<Rightarrow> state \<Rightarrow> state" where
  "startStatusCheck videoId st =
     (let st1 = checkStatus videoId st;
          st2 = setTimer True (CheckStatus videoId) 2000 st1
      in st2\<lparr>statusCheckIntervalRef := Some (nextTimerId st1)\<rparr>)"

definition checkStatus_resolved :: "VideoData \<Rightarrow> state \<Rightarrow> state" where
  "checkStatus_resolved data st =
     (let st1 = st\<lparr>videoData := Some data\<rparr>
      in if status data = ''completed'' \<or> status data = ''failed'' then
           (let st2 =
                  (case statusCheckIntervalRef st1 of
                     None \<Rightarrow> st1
                   | Some i \<Rightarrow>
                       if i = 0 then st1
                       else (clearInterval i st1)\<lparr>statusCheckIntervalRef := None\<rparr>)
            in if status data = ''completed''
               then logToConsole ''Video processing completed successfully!'' Success st2
               else logToConsole
                      (''Video processing failed: '' @
                       (case error data of
                          None \<Rightarrow> ''Unknown error''
                        | Some e \<Rightarrow> if e = [] then ''Unknown error'' else e))
                      Error st2)
         else st1)"

definition checkStatus_rejected :: "reason \<Rightarrow> state \<Rightarrow> state" where
  "checkStatus_rejected r st =
     logToConsole (''Status check failed: '' @ errorMessage r ''Unknown error'') Error st"

subsection \<open>Upload\<close>

definition uploadVideo :: "version \<Rightarrow> (nat \<Rightarrow> string) \<Rightarrow> File \<Rightarrow> state \<Rightarrow> state" where
  \<comment> \<open>\<^verbatim>\<open>uploadVideo\<close> up to its \<^verbatim>\<open>await\<close>. \<^verbatim>\<open>formatFileSize\<close> uses \<^verbatim>\<open>Math.log\<close> and \<^verbatim>\<open>toFixed\<close>
      and is taken as a parameter.\<close>
  "uploadVideo v formatFileSize file st =
     (let st1 = st\<lparr>isUploading := True, uploadProgress := 0\<rparr>;
          st2 = logToConsole
                  (''Starting upload: '' @ name file @ '' ('' @ formatFileSize (size' file) @ '')'')
                  Info st1;
          st3 = setTimer True UploadRamp 200 st2
      in issue (UploadVideoRequest file) (AfterUpload v (nextTimerId st2)) st3)"

definition uploadVideo_resolved :: "version \<Rightarrow> nat \<Rightarrow> string option \<Rightarrow> state \<Rightarrow> state" where
  "uploadVideo_resolved v progressInterval video_id st =
     (let st1 = (clearInterval progressInterval st)\<lparr>uploadProgress := 100\<rparr>;
          st2 =
            (case video_id of
               None \<Rightarrow> st1
             | Some i \<Rightarrow>
                 if i = [] then st1
                 else
                   (let st3 = st1\<lparr>uploadedVideoId := Some i\<rparr>;
                        st4 = logToConsole (''Upload successful! Video ID: '' @ i) Success st3;
                        st5 = startStatusCheck i st4
                    in if v = Editor then setTimer False SwitchTab 1000 st5 else st5))
      in st2\<lparr>isUploading := False\<rparr>)"

definition uploadVideo_rejected :: "reason \<Rightarrow> state \<Rightarrow> state" where
  "uploadVideo_rejected r st =
     (let st1 = logToConsole (''Upload failed: '' @ errorMessage r ''Unknown error'') Error st;
          st2 = toast Error ''Upload failed. Please try again.'' st1
      in st2\<lparr>isUploading := False\<rparr>)"

definition handleFileSelect ::
  "version \<Rightarrow> (nat \<Rightarrow> string) \<Rightarrow> File option \<Rightarrow> state \<Rightarrow> state" where
  "handleFileSelect v formatFileSize files st =
     (case files of
        None \<Rightarrow> st
      | Some file \<Rightarrow>
          (let st1 = st\<lparr>selectedFile := Some file,
                         videoSrc := Some (nextObjectUrl st),
                         nextObjectUrl := nextObjectUrl st + 1\<rparr>;
               st2 = st1\<lparr>uploadedVideoId := None, videoData := None\<rparr>;
               st3 = (if v = Editor then st2\<lparr>subtitleData := None, currentSubtitle := ''''\<rparr>
                      else st2);
               st4 = st3\<lparr>generatedThumbnail := None, thumbnailFrames := [],
                          selectedFrameIndex := None\<rparr>;
               st5 = (if v = Editor
                      then st4\<lparr>brightnessLevel := 100, contrastLevel := 100,
                                previewFilters := ''''\<rparr>
                      else st4)
           in uploadVideo v formatFileSize file st5))"

subsection \<open>Processing (\<open>Pages\<close>)\<close>

definition processVideo :: "string list \<Rightarrow> feature \<Rightarrow> string \<Rightarrow> state \<Rightarrow> state" where
  \<comment> \<open>\<^verbatim>\<open>processVideo(options, progressSetter, successMessage)\<close> up to its \<^verbatim>\<open>await\<close>; the
      options are the names of the switches that are set\<close>
  "processVideo options f successMessage st =
     (case uploadedVideoId st of
        None \<Rightarrow> toast Error ''Please upload a video first'' st
      | Some i \<Rightarrow>
          if i = [] then toast Error ''Please upload a video first'' st
          else
            (let st1 = setProgress f
                         (\<lambda>_. \<lparr>visible = True, percentage = 0,
                                status' = ''Starting processing...''\<rparr>) st
             in issue (ProcessVideoRequest i options) (AfterProcess f successMessage i) st1))"

definition processVideo_resolved :: "feature \<Rightarrow> string \<Rightarrow> string \<Rightarrow> state \<Rightarrow> state" where
  "processVideo_resolved f successMessage videoId st =
     setTimer True (ProcessingRamp f successMessage videoId 0) 300 st"

definition processVideo_rejected :: "feature \<Rightarrow> reason \<Rightarrow> state \<Rightarrow> state" where
  "processVideo_rejected f r st =
     (let msg = errorMessage r ''Processing failed'';
          st1 = logToConsole (''Processing failed: '' @ msg) Error st;
          st2 = setProgress f (\<lambda>prev. prev\<lparr>status' := ''Error: '' @ msg\<rparr>) st1
      in toast Error msg st2)"

definition processingTick ::
  "nat \<Rightarrow> feature \<Rightarrow> string \<Rightarrow> string \<Rightarrow> number \<Rightarrow> number \<Rightarrow> state \<Rightarrow> state" where
  \<comment> \<open>the callback of the progress interval \<open>i\<close> of \<^verbatim>\<open>processVideo\<close>; \<open>random\<close> is the value
      of \<^verbatim>\<open>Math.random()\<close>\<close>
  "processingTick i f successMessage videoId progress random st =
     (let progress1 = fadd progress (fmul random 10)
      in if 100 \<le> progress1 then
           (let st1 = clearInterval i st;
                st2 = setProgress f
                        (\<lambda>prev. prev\<lparr>percentage := 100, status' := successMessage\<rparr>) st1;
                st3 = logToConsole successMessage Success st2
            in if videoId = [] then st3 else startStatusCheck videoId st3)
         else
           (let st1 = st\<lparr>timers :=
                         map (\<lambda>t. if tid t = i
                                   then t\<lparr>task := ProcessingRamp f successMessage videoId progress1\<rparr>
                                   else t)
                             (timers st)\<rparr>
            in setProgress f
                 (\<lambda>prev. prev\<lparr>percentage := progress1,
                               status' := toString (Math_round progress1) @ ''% - Processing...''\<rparr>)
                 st1))"

subsection \<open>Subtitles (\<open>Editor\<close>)\<close>

definition stages :: "(number \<times> string) list" where
  "stages =
     [(20, ''Extracting audio track...''),
      (40, ''Running Whisper speech recognition...''),
      (60, ''Processing word-level timestamps...''),
      (80, ''Generating subtitle formats...''),
      (100, ''Subtitles generated successfully!'')]"

definition getLanguageName :: "string \<Rightarrow> string" where
  "getLanguageName code = (case map_of languageOptions code of Some n \<Rightarrow> n | None \<Rightarrow> ''English'')"

definition generateAdvancedSubtitles :: "state \<Rightarrow> state" where
  \<comment> \<open>\<^verbatim>\<open>generateAdvancedSubtitles\<close> up to the first \<^verbatim>\<open>await\<close> of its loop\<close>
  "generateAdvancedSubtitles st =
     (if uploadedVideoId st = None \<or> uploadedVideoId st = Some []
      then toast Error ''Please upload a video first'' st
      else
        (let st1 = st\<lparr>isGeneratingSubtitles := True,
                       subtitlesProgress :=
                         \<lparr>visible = True, percentage = 0,
                          status' = ''Initializing Whisper AI...''\<rparr>\<rparr>;
             st2 = logToConsole
                     (''Starting advanced subtitle generation: Language='' @ subtitleLanguage st @
                      '', Style='' @ subtitleStyle st)
                     Info st1
         in setTimer False (Stage 0 (subtitleLanguage st)) 1000 st2))"

definition stageDone :: "nat \<Rightarrow> string \<Rightarrow> state \<Rightarrow> state" where
  \<comment> \<open>the code after the \<^verbatim>\<open>await\<close> of stage \<open>k\<close>: the progress of the stage, then the next
      stage or, after the last one, the generation of the track\<close>
  "stageDone k lang st =
     (if length stages \<le> k then st
      else
      let (p, s) = stages ! k;
          st1 = st\<lparr>subtitlesProgress := (subtitlesProgress st)\<lparr>percentage := p, status' := s\<rparr>\<rparr>
      in if k + 1 < length stages then setTimer False (Stage (k + 1) lang) 1000 st1
         else
           (let st2 =
                  (case generateMockSubtitleData lang of
                     Inr mockSubtitleData \<Rightarrow>
                       (let st3 = st1\<lparr>subtitleData := Some mockSubtitleData\<rparr>;
                            st4 = logToConsole
                                    (''Advanced subtitles generated in '' @ getLanguageName lang @
                                     '' with word-level timing'')
                                    Success st3
                        in toast Success ''Subtitles generated with Whisper AI!'' st4)
                   | Inl TypeError \<Rightarrow>
                       (let msg = ''texts.map is not a function'';
                            st3 = logToConsole (''Subtitle generation failed: '' @ msg) Error st1
                        in toast Error msg st3))
            in st2\<lparr>isGeneratingSubtitles := False\<rparr>))"

definition currentCue :: "SubtitleCue list \<Rightarrow> number \<Rightarrow> SubtitleCue option" where
  \<comment> \<open>\<^verbatim>\<open>cues.find(cue => time >= cue.start && time <= cue.end)\<close>\<close>
  "currentCue cs time = find (\<lambda>cue. start cue \<le> time \<and> time \<le> end' cue) cs"

definition activeCue :: "SubtitleData \<Rightarrow> number \<Rightarrow> string" where
  \<comment> \<open>\<^verbatim>\<open>currentCue ? currentCue.text : ''\<close>\<close>
  "activeCue d time = (case currentCue (cues d) time of Some cue \<Rightarrow> text' cue | None \<Rightarrow> '''')"

definition handleVideoTimeUpdate :: "number option \<Rightarrow> state \<Rightarrow> state" where
  \<comment> \<open>the argument is the \<^verbatim>\<open>currentTime\<close> of the video element, if \<^verbatim>\<open>videoRef.current\<close> is
      set\<close>
  "handleVideoTimeUpdate video st =
     (case video of
        None \<Rightarrow> st
      | Some time \<Rightarrow>
          (let st1 = st\<lparr>currentTime := time\<rparr>
           in case subtitleData st1 of
                None \<Rightarrow> st1
              | Some d \<Rightarrow>
                  if showSubtitles st1 then st1\<lparr>currentSubtitle := activeCue d time\<rparr>
                  else st1))"

definition toggleSubtitles :: "state \<Rightarrow> state" where
  \<comment> \<open>\<^verbatim>\<open>setShowSubtitles(!showSubtitles)\<close>\<close>
  "toggleSubtitles st = st\<lparr>showSubtitles := \<not> showSubtitles st\<rparr>"


subsection \<open>Events of the runtime\<close>

definition fire :: "nat \<Rightarrow> number \<Rightarrow> state \<Rightarrow> state" where
  \<comment> \<open>the runtime runs the callback of timer \<open>i\<close>, if it is still active; \<open>random\<close> is the
      value that \<^verbatim>\<open>Math.random()\<close> returns in the callback\<close>
  "fire i random st =
     (case find (\<lambda>t. tid t = i) (timers st) of
        None \<Rightarrow> st
      | Some t \<Rightarrow>
          (let st1 = (if repeating t then st else clearInterval i st)
           in case task t of
                CheckStatus videoId \<Rightarrow> checkStatus videoId st1
              | UploadRamp \<Rightarrow>
                  st1\<lparr>uploadProgress := min (fadd (uploadProgress st1) (fmul random 15)) 95\<rparr>
              | ProcessingRamp f msg videoId progress \<Rightarrow>
                  processingTick i f msg videoId progress random st1
              | SwitchTab \<Rightarrow>
                  logToConsole ''Switched to Enhancement tab - ready for processing'' Info
                    (st1\<lparr>activeTab := ''enhancement''\<rparr>)
              | Stage k lang \<Rightarrow> stageDone k lang st1))"

definition settle :: "nat \<Rightarrow> response \<Rightarrow> state \<Rightarrow> state" where
  \<comment> \<open>the pending call \<open>c\<close> resolves or is rejected, and the code after its \<^verbatim>\<open>await\<close> runs; a
      response of another call's kind is ignored\<close>
  "settle c r st =
     (case find (\<lambda>p. cid p = c) (pending st) of
        None \<Rightarrow> st
      | Some p \<Rightarrow>
          (let st1 = st\<lparr>pending := filter (\<lambda>p. cid p \<noteq> c) (pending st)\<rparr>
           in case (continuation p, r) of
                (AfterUpload v i, UploadResponse video_id) \<Rightarrow> uploadVideo_resolved v i video_id st1
              | (AfterUpload v i, Failure e) \<Rightarrow> uploadVideo_rejected e st1
              | (AfterStatus, StatusResponse data) \<Rightarrow> checkStatus_resolved data st1
              | (AfterStatus, Failure e) \<Rightarrow> checkStatus_rejected e st1
              | (AfterProcess f msg videoId, ProcessResponse) \<Rightarrow>
                  processVideo_resolved f msg videoId st1
              | (AfterProcess f msg videoId, Failure e) \<Rightarrow> processVideo_rejected f e st1
              | _ \<Rightarrow> st))"

definition cleanup :: "version \<Rightarrow> state \<Rightarrow> state" where
  \<comment> \<open>the cleanup function of the last effect: React runs it when the component unmounts
      and, in the editor, also after a render in which \<^verbatim>\<open>videoSrc\<close> has changed. The ref of
      the processing interval is never assigned, and the timeout of the player controls
      and the object URL are not part of the model.\<close>
  "cleanup v st =
     (case statusCheckIntervalRef st of
        None \<Rightarrow> st
      | Some i \<Rightarrow> if i = 0 then st else clearInterval i st)"

datatype event =
    SelectFile "File option"
  | Fire nat number
  | Settle nat response
  | ProcessVideo "string list" feature string
  | GenerateSubtitles
  | TimeUpdate "number option"
  | ToggleSubtitles
  | SelectLanguage string
  | Cleanup

definition step :: "version \<Rightarrow> (nat \<Rightarrow> string) \<Rightarrow> event \<Rightarrow> state \<Rightarrow> state" where
  "step v formatFileSize e st =
     (case e of
        SelectFile files \<Rightarrow> handleFileSelect v formatFileSize files st
      | Fire i random \<Rightarrow> fire i random st
      | Settle c r \<Rightarrow> settle c r st
      | ProcessVideo options f msg \<Rightarrow> processVideo options f msg st
      | GenerateSubtitles \<Rightarrow> generateAdvancedSubtitles st
      | TimeUpdate video \<Rightarrow> handleVideoTimeUpdate video st
      | ToggleSubtitles \<Rightarrow> toggleSubtitles st
      | SelectLanguage code \<Rightarrow> st\<lparr>subtitleLanguage := code\<rparr>
      | Cleanup \<Rightarrow> cleanup v st)"

definition run :: "version \<Rightarrow> (nat \<Rightarrow> string) \<Rightarrow> event list \<Rightarrow> state \<Rightarrow> state" where
  "run v formatFileSize es st = foldl (\<lambda>s e. step v formatFileSize e s) st es"

text \<open>The observations of the claims: active status pollers, and status fetches issued.\<close>

definition isCheckStatus :: "task \<Rightarrow> bool" where
  "isCheckStatus t = (case t of CheckStatus videoId \<Rightarrow> True | _ \<Rightarrow> False)"

definition statusTimers :: "state \<Rightarrow> timer list" where
  "statusTimers st = filter (\<lambda>t. isCheckStatus (task t)) (timers st)"

definition statusFetches :: "string \<Rightarrow> state \<Rightarrow> nat" where
  "statusFetches videoId st = length (filter (\<lambda>r. r = GetVideoStatusRequest videoId) (apiLog st))"

fun chronological :: "SubtitleCue list \<Rightarrow> bool" where
  \<comment> \<open>the invariant of a track in the data model of the specification:
      \<open>0 \<le> start < end\<close> in every cue, and no cue starts before the previous one ends\<close>
  "chronological [] = True"
| "chronological [c] = (0 \<le> start c \<and> start c < end' c)"
| "chronological (c # d # cs) =
     (0 \<le> start c \<and> start c < end' c \<and> end' c \<le> start d \<and> chronological (d # cs))"

section \<open>Scenarios\<close>

text \<open>
  Concrete runs of the component, used to look at the claims on states that the
  component really reaches. The file is a 10 MB video.
\<close>

definition demoFile :: File where
  "demoFile = \<lparr>name = ''clip.mp4'', size' = 10485760\<rparr>"

definition demoSize :: "nat \<Rightarrow> string" where
  "demoSize n = ''10 MB''"

definition jobStatus :: "string \<Rightarrow> string \<Rightarrow> VideoData" where
  \<comment> \<open>the answer of \<^verbatim>\<open>getVideoStatus\<close> for a job in a given status\<close>
  "jobStatus videoId s = \<lparr>id' = videoId, filename = ''clip.mp4'', status = s, error = None\<rparr>"

definition watching :: state where
  \<comment> \<open>the editor after an upload and the generation of English subtitles: the five stage
      timeouts have the identifiers 4 to 8\<close>
  "watching =
     run Editor demoSize
       [SelectFile (Some demoFile), Settle 0 (UploadResponse (Some ''v1'')),
        GenerateSubtitles, Fire 4 0, Fire 5 0, Fire 6 0, Fire 7 0, Fire 8 0]
       (initial Editor)"


definition nextFile :: File where
  "nextFile = \<lparr>name = ''next.mp4'', size' = 10485760\<rparr>"

definition twoUploads :: state where
  \<comment> \<open>the page after two uploads, one after the other: the calls 0 and 2 are the uploads,
      1 and 3 the first status fetches of the two pollers\<close>
  "twoUploads =
     run Pages demoSize
       [SelectFile (Some demoFile), Settle 0 (UploadResponse (Some ''v1'')),
        SelectFile (Some nextFile), Settle 2 (UploadResponse (Some ''v2''))]
       (initial Pages)"

definition reprocessed :: state where
  \<comment> \<open>the page after an upload and the audio processing of the video: the job is still
      \<^verbatim>\<open>uploaded\<close> at the first status fetch, timer 3 is the progress interval of
      \<^verbatim>\<open>processVideo\<close>, and \<^verbatim>\<open>Math.random()\<close> returns 0.9375 in each of its eleven callbacks\<close>
  "reprocessed =
     run Pages demoSize
       [SelectFile (Some demoFile), Settle 0 (UploadResponse (Some ''v1'')),
        Settle 1 (StatusResponse (jobStatus ''v1'' ''uploaded'')),
        ProcessVideo [''cut_silence'', ''enhance_audio''] Audio
          ''Audio processing completed successfully'',
        Settle 2 ProcessResponse,
        Fire 3 (15 / 16), Fire 3 (15 / 16), Fire 3 (15 / 16), Fire 3 (15 / 16),
        Fire 3 (15 / 16), Fire 3 (15 / 16), Fire 3 (15 / 16), Fire 3 (15 / 16),
        Fire 3 (15 / 16), Fire 3 (15 / 16), Fire 3 (15 / 16)]
       (initial Pages)"

definition completed :: state where
  \<comment> \<open>the status fetch of the second poller (call 3) finds the job completed\<close>
  "completed =
     run Pages demoSize [Settle 3 (StatusResponse (jobStatus ''v1'' ''completed''))] reprocessed"

definition failedUpload :: "version \<Rightarrow> state" where
  \<comment> \<open>the upload of the selected file is rejected with a network error\<close>
  "failedUpload v =
     run v demoSize
       [SelectFile (Some demoFile), Settle 0 (Failure (ErrorObject ''Network Error''))]
       (initial v)"



section \<open>Properties of the number model\<close>

lemma rhe_of_int: "rhe (of_int n) = n"
  by (simp add: rhe_def)

lemma rhe_lower: "y - 1 / 2 \<le> of_int (rhe y)"
proof -
  have "y - 1 < of_int \<lfloor>y\<rfloor>" by linarith
  then show ?thesis
    by (auto simp: rhe_def Let_def)
qed

lemma rhe_upper: "of_int (rhe y) \<le> y + 1 / 2"
proof -
  have "of_int \<lfloor>y\<rfloor> \<le> y" by simp
  then show ?thesis
    unfolding rhe_def Let_def by (auto; linarith)
qed

lemma rhe_ge_int: "of_int n \<le> y \<Longrightarrow> n \<le> rhe y"
proof -
  assume "of_int n \<le> y"
  then have "n \<le> \<lfloor>y\<rfloor>" by (simp add: le_floor_iff)
  then show ?thesis by (auto simp: rhe_def Let_def)
qed

lemma flog2_lower: assumes "0 < x" shows "2 powi flog2 x \<le> x"
proof (cases "1 \<le> x")
  case True
  then have pos: "0 < \<lfloor>x\<rfloor>" by simp
  have "(2::int) ^ nat (bitlen \<lfloor>x\<rfloor> - 1) \<le> \<lfloor>x\<rfloor>"
    using bitlen_bounds [OF pos] by simp
  then have "(2::rat) ^ nat (bitlen \<lfloor>x\<rfloor> - 1) \<le> of_int \<lfloor>x\<rfloor>"
    by (metis of_int_le_iff of_int_numeral of_int_power)
  also have "\<dots> \<le> x" by simp
  finally have "(2::rat) ^ nat (bitlen \<lfloor>x\<rfloor> - 1) \<le> x" .
  moreover have "0 \<le> bitlen \<lfloor>x\<rfloor> - 1"
    using pos bitlen_bounds [OF pos] by (smt (verit) bitlen_def floorlog_eq_zero_iff nat_0_iff int_nat_eq of_nat_0_less_iff)
  ultimately show ?thesis
    using True by (simp add: flog2_def power_int_nonneg_exp)
next
  case False
  define m where "m = \<lceil>1 / x\<rceil>"
  define b where "b = bitlen (m - 1)"
  have x1: "1 < 1 / x" using False assms by simp
  have m2: "0 < m - 1" unfolding m_def using x1 by linarith
  have "m - 1 < (2::int) ^ nat b"
    using bitlen_bounds [OF m2] by (simp add: b_def)
  then have "m \<le> (2::int) ^ nat b" by simp
  then have "(of_int m :: rat) \<le> 2 ^ nat b"
    by (metis of_int_le_iff of_int_numeral of_int_power)
  moreover have "1 / x \<le> of_int m" unfolding m_def by simp
  ultimately have "1 / x \<le> 2 ^ nat b" by linarith
  then have "1 / (2 ^ nat b) \<le> x"
    using assms by (simp add: field_simps)
  moreover have "0 \<le> b" by (simp add: b_def bitlen_nonneg)
  ultimately show ?thesis
    using False by (simp add: flog2_def m_def [symmetric] b_def [symmetric]
        power_int_minus_divide power_int_nonneg_exp)
qed


lemma flog2_upper: assumes "0 < x" shows "x < 2 powi (flog2 x + 1)"
proof (cases "1 \<le> x")
  case True
  then have pos: "0 < \<lfloor>x\<rfloor>" by simp
  have b1: "1 \<le> bitlen \<lfloor>x\<rfloor>"
    using pos bitlen_bounds [OF pos]
    by (metis add_0 bitlen_nonneg nat_0_iff not_less power_0 zless_imp_add1_zle linorder_not_le order_less_le)
  have "\<lfloor>x\<rfloor> + 1 \<le> (2::int) ^ nat (bitlen \<lfloor>x\<rfloor>)"
    using bitlen_bounds [OF pos] by simp
  then have "(of_int (\<lfloor>x\<rfloor> + 1) :: rat) \<le> 2 ^ nat (bitlen \<lfloor>x\<rfloor>)"
    by (metis of_int_le_iff of_int_numeral of_int_power)
  moreover have "x < of_int (\<lfloor>x\<rfloor> + 1)" by linarith
  ultimately have "x < 2 ^ nat (bitlen \<lfloor>x\<rfloor>)" by linarith
  then show ?thesis
    using True b1 by (simp add: flog2_def power_int_nonneg_exp)
next
  case False
  define m where "m = \<lceil>1 / x\<rceil>"
  define b where "b = bitlen (m - 1)"
  have x1: "1 < 1 / x" using False assms by simp
  have m2: "0 < m - 1" unfolding m_def using x1 by linarith
  have b1: "1 \<le> b"
    using m2 bitlen_bounds [OF m2] unfolding b_def
    by (metis add_0 bitlen_nonneg nat_0_iff not_less power_0 zless_imp_add1_zle linorder_not_le order_less_le)
  have "(2::int) ^ nat (b - 1) \<le> m - 1"
    using bitlen_bounds [OF m2] by (simp add: b_def)
  then have "(2::rat) ^ nat (b - 1) \<le> of_int (m - 1)"
    by (metis of_int_le_iff of_int_numeral of_int_power)
  moreover have "of_int (m - 1) < 1 / x" unfolding m_def by linarith
  ultimately have "2 ^ nat (b - 1) < 1 / x" by linarith
  then have "x < 1 / (2 ^ nat (b - 1))"
    using assms by (simp add: field_simps)
  moreover have "(2::rat) powi (- b + 1) = 1 / 2 ^ nat (b - 1)"
  proof -
    have "(2::rat) powi (- b + 1) = 2 powi (- (b - 1))" by simp
    also have "\<dots> = 1 / 2 powi (b - 1)" by (rule power_int_minus_divide)
    also have "\<dots> = 1 / 2 ^ nat (b - 1)" using b1 by (simp add: power_int_nonneg_exp)
    finally show ?thesis .
  qed
  ultimately show ?thesis
    using False by (simp add: flog2_def m_def [symmetric] b_def [symmetric])
qed

lemma flog2_less: "0 < x \<Longrightarrow> x < 2 powi j \<Longrightarrow> flog2 x < j"
proof (rule ccontr)
  assume a: "0 < x" "x < 2 powi j" "\<not> flog2 x < j"
  then have "(2::rat) powi j \<le> 2 powi flog2 x"
    by (intro power_int_increasing) auto
  with flog2_lower [OF a(1)] a(2) show False by linarith
qed

lemma flog2_ge: "0 < x \<Longrightarrow> 2 powi j \<le> x \<Longrightarrow> j \<le> flog2 x"
proof (rule ccontr)
  assume a: "0 < x" "2 powi j \<le> x" "\<not> j \<le> flog2 x"
  then have "(2::rat) powi (flog2 x + 1) \<le> 2 powi j"
    by (intro power_int_increasing) auto
  with flog2_upper [OF a(1)] a(2) show False by linarith
qed

lemma expo_min: "- 1074 \<le> expo x"
  by (simp add: expo_def)

lemma expo_ge_flog2: "flog2 x - 52 \<le> expo x"
  by (simp add: expo_def)

lemma expo_le: "0 < x \<Longrightarrow> x < 2 powi j \<Longrightarrow> - 1021 \<le> j \<Longrightarrow> expo x \<le> j - 53"
  using flog2_less [of x j] by (simp add: expo_def)

lemma expo_le_zero: "0 < x \<Longrightarrow> x < 2 ^ 53 \<Longrightarrow> expo x \<le> 0"
  using expo_le [of x 53] by simp

lemma less_powi_expo: assumes "0 < s" shows "s < 2 powi (expo s + 53)"
proof -
  have "s < 2 powi (flog2 s + 1)" by (rule flog2_upper [OF assms])
  also have "\<dots> \<le> 2 powi (expo s + 53)"
    using expo_ge_flog2 [of s] by (intro power_int_increasing) auto
  finally show ?thesis .
qed

lemma binary64_pos: "0 < x \<Longrightarrow> binary64 x = of_int (rhe (x / 2 powi expo x)) * 2 powi expo x"
  by (simp add: binary64_def)

lemma binary64_error: assumes "0 < x" shows "\<bar>binary64 x - x\<bar> \<le> 2 powi expo x / 2"
proof -
  define u :: rat where "u = 2 powi expo x"
  have u: "0 < u" by (simp add: u_def zero_less_power_int)
  have "\<bar>of_int (rhe (x / u)) - x / u\<bar> \<le> 1 / 2"
    using rhe_lower [of "x / u"] rhe_upper [of "x / u"] by linarith
  then have "\<bar>of_int (rhe (x / u)) - x / u\<bar> * u \<le> 1 / 2 * u"
    using u by (intro mult_right_mono) auto
  moreover have "\<bar>of_int (rhe (x / u)) - x / u\<bar> * u = \<bar>of_int (rhe (x / u)) * u - x\<bar>"
    using u by (simp add: abs_mult_pos [symmetric] field_simps del: abs_mult_pos)
  ultimately have "\<bar>of_int (rhe (x / u)) * u - x\<bar> \<le> u / 2" by simp
  then show ?thesis
    unfolding binary64_pos [OF assms] u_def .
qed

lemma powi_grid: assumes "e \<le> g" shows "(2::rat) powi g = of_int (2 ^ nat (g - e)) * 2 powi e"
proof -
  have "(2::rat) powi g = 2 powi ((g - e) + e)" by simp
  also have "\<dots> = 2 powi (g - e) * 2 powi e" by (rule power_int_add) simp
  also have "(2::rat) powi (g - e) = 2 ^ nat (g - e)"
    using assms by (simp add: power_int_nonneg_exp)
  finally show ?thesis by simp
qed

lemma binary64_ge_grid:
  assumes "0 < x" "expo x \<le> g" "of_int n * 2 powi g \<le> x"
  shows "of_int n * 2 powi g \<le> binary64 x"
proof -
  define u :: rat where "u = 2 powi expo x"
  have u: "0 < u" by (simp add: u_def zero_less_power_int)
  define m where "m = n * 2 ^ nat (g - expo x)"
  have g: "of_int n * 2 powi g = of_int m * u"
    by (simp add: powi_grid [OF assms(2)] m_def u_def)
  from assms(3) have "of_int m * u \<le> x" unfolding g .
  then have "of_int m \<le> x / u" using u by (simp add: pos_le_divide_eq)
  then have "m \<le> rhe (x / u)" by (rule rhe_ge_int)
  then have "of_int m * u \<le> of_int (rhe (x / u)) * u"
    using u by (simp add: mult_right_mono)
  then show ?thesis
    unfolding binary64_pos [OF assms(1)] g u_def .
qed

lemma binary64_exact_grid:
  assumes "0 < x" "expo x \<le> g" "x = of_int n * 2 powi g"
  shows "binary64 x = x"
proof -
  define u :: rat where "u = 2 powi expo x"
  have u: "0 < u" by (simp add: u_def zero_less_power_int)
  define m where "m = n * 2 ^ nat (g - expo x)"
  have pg: "(2::rat) powi g = of_int (2 ^ nat (g - expo x)) * u"
    unfolding u_def by (rule powi_grid [OF assms(2)])
  have h: "of_int n * 2 powi g = of_int m * u"
    by (simp add: pg m_def)
  have g: "x = of_int m * u"
    using assms(3) h by (rule trans)
  then have "x / u = of_int m" using u by simp
  then have "rhe (x / u) = m" by (simp add: rhe_of_int)
  then have "of_int (rhe (x / u)) * u = x" using g by simp
  then show ?thesis
    unfolding binary64_pos [OF assms(1)] u_def .
qed

lemma is_binary64_grid:
  assumes "is_binary64 s" "0 < s" shows "\<exists>n. s = of_int n * 2 powi expo s"
  using assms binary64_pos [of s] unfolding is_binary64_def by metis

lemma binary64_0: "binary64 0 = 0"
  by (simp add: binary64_def)

lemma powi_le_quarter: "j \<le> - 2 \<Longrightarrow> (2::rat) powi j \<le> 1 / 4"
proof -
  assume "j \<le> - 2"
  then have "(2::rat) powi j \<le> 2 powi (- 2)"
    by (intro power_int_increasing) auto
  then show ?thesis by (simp add: power_int_minus_divide)
qed

lemma floor_binary64_quotient:
  fixes d :: nat
  assumes s: "0 < s" "s < 2 ^ 53"
    and x: "x = of_int n * 2 powi expo s" "0 \<le> x" "x \<le> s"
    and d: "0 < d"
  shows "\<lfloor>binary64 (x / of_nat d)\<rfloor> = \<lfloor>x / of_nat d\<rfloor>"
proof (cases "x = 0")
  case True
  then show ?thesis by (simp add: binary64_0)
next
  case False
  define q where "q = x / of_nat d"
  define k where "k = \<lfloor>q\<rfloor>"
  define g where "g = expo s"
  have xpos: "0 < x" using False x(2) by simp
  have dpos: "(0::rat) < of_nat d" "(1::rat) \<le> of_nat d" using d by simp_all
  have qpos: "0 < q" using xpos dpos by (simp add: q_def)
  have qx: "q \<le> x" using xpos dpos by (simp add: q_def field_simps mult_le_cancel_left1)
  have g0: "g \<le> 0" unfolding g_def using s by (rule expo_le_zero)
  have q53: "q < 2 ^ 53" using qx x(3) s(2) by linarith
  have eq0: "expo q \<le> 0" using qpos q53 by (rule expo_le_zero)
  have k0: "0 \<le> k" using qpos by (simp add: k_def)
  have kq: "of_int k \<le> q" "q < of_int k + 1" unfolding k_def by linarith+
  have lower: "of_int k \<le> binary64 q"
    using binary64_ge_grid [OF qpos eq0, of k] kq(1) by simp
  have upper: "binary64 q < of_int k + 1"
  proof (cases "- 1074 \<le> flog2 q - 52")
    case True
    then have eq: "expo q = flog2 q - 52" by (simp add: expo_def)
    define M where "M = (k + 1) * int d * 2 ^ nat (- g) - n"
    have one: "(1::rat) = of_int (2 ^ nat (- g)) * 2 powi g"
      using powi_grid [OF g0] by simp
    have "(of_int k + 1) * of_nat d - x = (of_int k + 1) * of_nat d * 1 - x" by simp
    also have "\<dots> = (of_int k + 1) * of_nat d * (of_int (2 ^ nat (- g)) * 2 powi g) - x"
      using one by simp
    also have "\<dots> = of_int M * 2 powi g"
      by (simp add: M_def x(1) g_def algebra_simps)
    finally have D: "(of_int k + 1) * of_nat d - x = of_int M * 2 powi g" .
    have "0 < (of_int k + 1) * of_nat d - x"
      using kq(2) dpos by (simp add: q_def field_simps)
    then have "0 < of_int M * (2::rat) powi g" using D by simp
    moreover have "0 < (2::rat) powi g" by (simp add: zero_less_power_int)
    ultimately have "0 < (of_int M :: rat)"
      by (rule zero_less_mult_pos2)
    then have "1 \<le> M" by simp
    then have "(1::rat) \<le> of_int M" by simp
    then have "1 * (2::rat) powi g \<le> of_int M * 2 powi g"
      by (intro mult_right_mono) auto
    then have gap: "(2::rat) powi g \<le> (of_int k + 1) * of_nat d - x" using D by simp
    have "(2::rat) powi expo q / 2 = 2 powi flog2 q * 2 powi (- 53)"
    proof -
      have "(2::rat) powi expo q = 2 powi (flog2 q + (- 53) + 1)" by (simp add: eq)
      also have "\<dots> = 2 powi (flog2 q + (- 53)) * 2" by (rule power_int_add_1) simp
      also have "(2::rat) powi (flog2 q + (- 53)) = 2 powi flog2 q * 2 powi (- 53)"
        by (rule power_int_add) simp
      finally show ?thesis by simp
    qed
    also have "\<dots> \<le> q * 2 powi (- 53)"
      using flog2_lower [OF qpos] by (intro mult_right_mono) auto
    also have "\<dots> = x * 2 powi (- 53) / of_nat d" by (simp add: q_def)
    also have "\<dots> < 2 powi (g + 53) * 2 powi (- 53) / of_nat d"
    proof -
      have "x < 2 powi (g + 53)"
        using less_powi_expo [OF s(1)] x(3) by (simp add: g_def)
      then have "x * 2 powi (- 53) < 2 powi (g + 53) * 2 powi (- 53)"
        by (intro mult_strict_right_mono) (auto simp: zero_less_power_int)
      then show ?thesis using dpos by (simp add: divide_strict_right_mono)
    qed
    also have "(2::rat) powi (g + 53) * 2 powi (- 53) = 2 powi g"
      by (subst power_int_add [symmetric]) auto
    finally have e: "(2::rat) powi expo q / 2 < 2 powi g / of_nat d" .
    have "(2::rat) powi g / of_nat d \<le> ((of_int k + 1) * of_nat d - x) / of_nat d"
      using gap dpos by (simp add: divide_right_mono)
    also have "\<dots> = of_int k + 1 - q" using dpos by (simp add: q_def field_simps)
    finally have "(2::rat) powi g / of_nat d \<le> of_int k + 1 - q" .
    with e binary64_error [OF qpos] show ?thesis by linarith
  next
    case False
    then have eq: "expo q = - 1074" by (simp add: expo_def)
    have "q < 2 powi (flog2 q + 1)" by (rule flog2_upper [OF qpos])
    also have "\<dots> \<le> 1 / 4" using False by (intro powi_le_quarter) simp
    finally have "q < 1 / 4" .
    moreover have "(2::rat) powi expo q \<le> 1 / 4" unfolding eq by (intro powi_le_quarter) simp
    ultimately show ?thesis using binary64_error [OF qpos] k0 by linarith
  qed
  have "\<lfloor>binary64 q\<rfloor> = k" using lower upper by (simp add: floor_unique)
  then show ?thesis by (simp add: q_def k_def)
qed

lemma floor_divide_rat:
  fixes x :: rat assumes "0 < b" shows "\<lfloor>x / of_int b\<rfloor> = \<lfloor>x\<rfloor> div b"
proof (rule floor_unique)
  define f where "f = \<lfloor>x\<rfloor>"
  have b: "(0::rat) < of_int b" using assms by simp
  have f: "of_int f \<le> x" "x < of_int f + 1" unfolding f_def by linarith+
  have "f div b * b \<le> f"
    using div_mult_mod_eq [of f b] pos_mod_sign [OF assms, of f] by linarith
  then have "(of_int (f div b * b) :: rat) \<le> of_int f" by (simp only: of_int_le_iff)
  then have "of_int (f div b) * of_int b \<le> x" using f(1) by simp
  then show "of_int (\<lfloor>x\<rfloor> div b) \<le> x / of_int b"
    using b by (simp add: pos_le_divide_eq f_def)
  have "f mod b < b" using assms by simp
  then have "f + 1 \<le> f div b * b + b"
    using div_mult_mod_eq [of f b] by linarith
  then have "(of_int (f + 1) :: rat) \<le> of_int (f div b * b + b)" by (simp only: of_int_le_iff)
  then have "x < (of_int (f div b) + 1) * of_int b" using f(2) by (simp add: algebra_simps)
  then show "x / of_int b < of_int (\<lfloor>x\<rfloor> div b) + 1"
    using b by (simp add: pos_divide_less_eq f_def)
qed

lemma toString_of_int: "0 \<le> n \<Longrightarrow> toString (of_int n) = string_of_nat (nat n)"
  by (simp add: toString_def)

lemma jsmod_nonneg: "0 \<le> x \<Longrightarrow> 0 < y \<Longrightarrow> jsmod x y = x - y * of_int \<lfloor>x / y\<rfloor>"
  by (simp add: jsmod_def)

lemma grid_int: "g \<le> 0 \<Longrightarrow> (of_int k :: rat) = of_int (k * 2 ^ nat (- g)) * 2 powi g"
  using powi_grid [of g 0] by simp

lemma grid_diff:
  fixes s :: rat
  assumes "g \<le> 0" "s = of_int n * 2 powi g"
  shows "\<exists>m. s - of_int k = of_int m * 2 powi g"
proof -
  have "s - of_int k = of_int (n - k * 2 ^ nat (- g)) * 2 powi g"
    by (subst grid_int [OF assms(1), of k]) (simp add: assms(2) algebra_simps)
  then show ?thesis ..
qed

lemma mod_3600_split: "(a::int) mod 3600 = 60 * (a div 60 mod 60) + a mod 60"
  using mod_mult2_eq' [of a 60 60] by simp

lemma minutes_of_floor: "((a::int) - 3600 * (a div 3600)) div 60 = a div 60 mod 60"
proof -
  have "a - 3600 * (a div 3600) = a mod 3600" by (simp add: minus_mult_div_eq_mod)
  also have "\<dots> = (a div 60 mod 60) * 60 + a mod 60" using mod_3600_split [of a] by simp
  finally have "(a - 3600 * (a div 3600)) div 60 = ((a div 60 mod 60) * 60 + a mod 60) div 60"
    by simp
  also have "\<dots> = a div 60 mod 60" by simp
  finally show ?thesis .
qed

lemma hours_exact:
  assumes "is_binary64 s" "0 < s" "s < 2 ^ 53"
  shows "Math_floor (fdiv s 3600) = of_int (\<lfloor>s\<rfloor> div 3600)"
proof -
  obtain n where n: "s = of_int n * 2 powi expo s"
    using is_binary64_grid [OF assms(1,2)] by blast
  have "\<lfloor>binary64 (s / of_nat 3600)\<rfloor> = \<lfloor>s / of_nat 3600\<rfloor>"
    using assms(2,3) n by (rule floor_binary64_quotient) (use assms in simp_all)
  also have "\<dots> = \<lfloor>s\<rfloor> div 3600"
    using floor_divide_rat [of 3600 s] by simp
  finally show ?thesis by (simp add: Math_floor_def fdiv_def)
qed

lemma minutes_exact:
  assumes "is_binary64 s" "0 < s" "s < 2 ^ 53"
  shows "Math_floor (fdiv (jsmod s 3600) 60) = of_int (\<lfloor>s\<rfloor> div 60 mod 60)"
proof -
  obtain n where n: "s = of_int n * 2 powi expo s"
    using is_binary64_grid [OF assms(1,2)] by blast
  define k where "k = \<lfloor>s\<rfloor> div 3600"
  have k: "\<lfloor>s / 3600\<rfloor> = k"
    using floor_divide_rat [of 3600 s] by (simp add: k_def)
  have k0: "0 \<le> k" using assms(2) by (simp add: k_def pos_imp_zdiv_nonneg_iff)
  define x where "x = s - of_int (3600 * k)"
  have x: "jsmod s 3600 = x"
    using assms(2) by (simp add: jsmod_nonneg k x_def)
  have g0: "expo s \<le> 0" using assms(2,3) by (rule expo_le_zero)
  obtain m where m: "x = of_int m * 2 powi expo s"
    unfolding x_def using grid_diff [OF g0 n] by blast
  have "of_int k \<le> s / 3600" unfolding k [symmetric] by (rule of_int_floor_le)
  then have x0: "0 \<le> x" by (simp add: x_def field_simps)
  have xs: "x \<le> s" using k0 by (simp add: x_def)
  have "\<lfloor>binary64 (x / of_nat 60)\<rfloor> = \<lfloor>x / of_nat 60\<rfloor>"
    using assms(2,3) m x0 xs by (rule floor_binary64_quotient) simp
  also have "\<dots> = \<lfloor>x\<rfloor> div 60"
    using floor_divide_rat [of 60 x] by simp
  also have "\<lfloor>x\<rfloor> = \<lfloor>s\<rfloor> - 3600 * k" unfolding x_def by (rule floor_diff_of_int)
  also have "(\<lfloor>s\<rfloor> - 3600 * k) div 60 = \<lfloor>s\<rfloor> div 60 mod 60"
    unfolding k_def by (rule minutes_of_floor)
  finally show ?thesis by (simp add: Math_floor_def fdiv_def x)
qed

lemma secs_exact:
  assumes "0 \<le> s"
  shows "Math_floor (jsmod s 60) = of_int (\<lfloor>s\<rfloor> mod 60)"
proof -
  have e: "\<lfloor>s / 60\<rfloor> = \<lfloor>s\<rfloor> div 60"
    using floor_divide_rat [of 60 s] by simp
  have "jsmod s 60 = s - of_int (60 * (\<lfloor>s\<rfloor> div 60))"
    using assms by (simp add: jsmod_nonneg e)
  then have "\<lfloor>jsmod s 60\<rfloor> = \<lfloor>s\<rfloor> - 60 * (\<lfloor>s\<rfloor> div 60)"
    by (simp only: floor_diff_of_int)
  also have "\<dots> = \<lfloor>s\<rfloor> mod 60" by presburger
  finally show ?thesis by (simp add: Math_floor_def)
qed

lemma grid_pos_ge:
  fixes x :: rat
  assumes "x = of_int m * 2 powi g" "0 < x" shows "2 powi g \<le> x"
proof -
  have "0 < of_int m * (2::rat) powi g" using assms by simp
  moreover have "0 < (2::rat) powi g" by (simp add: zero_less_power_int)
  ultimately have "0 < (of_int m :: rat)" by (rule zero_less_mult_pos2)
  then have "(1::rat) \<le> of_int m" by simp
  then have "1 * (2::rat) powi g \<le> of_int m * 2 powi g"
    by (intro mult_right_mono) auto
  then show ?thesis using assms(1) by simp
qed

lemma ms_error:
  assumes "0 < p" "p < 1000"
  shows "\<bar>binary64 p - p\<bar> \<le> 2 powi (- 44)"
proof -
  have "expo p \<le> - 43" using expo_le [of p 10] assms by simp
  then have "(2::rat) powi expo p \<le> 2 powi (- 43)"
    by (intro power_int_increasing) auto
  then have "(2::rat) powi expo p / 2 \<le> 2 powi (- 44)" by simp
  with binary64_error [OF assms(1)] show ?thesis by linarith
qed

lemma ms_lower:
  assumes "0 \<le> p" "p < 1000"
  shows "\<lfloor>p\<rfloor> \<le> \<lfloor>binary64 p\<rfloor>"
proof (cases "p = 0")
  case True then show ?thesis by (simp add: binary64_0)
next
  case False
  then have p: "0 < p" using assms by simp
  have "expo p \<le> 0" using expo_le [of p 10] p assms by simp
  then have "of_int \<lfloor>p\<rfloor> * 2 powi 0 \<le> binary64 p"
    using p by (intro binary64_ge_grid) auto
  then show ?thesis by (simp add: le_floor_iff)
qed

lemma ms_upper:
  assumes "is_binary64 s" "0 \<le> s" "s < 2 ^ 53"
  shows "binary64 ((s - of_int \<lfloor>s\<rfloor>) * 1000) < 1000"
proof -
  define f where "f = s - of_int \<lfloor>s\<rfloor>"
  define p where "p = f * 1000"
  have f: "0 \<le> f" "f < 1" unfolding f_def by linarith+
  show ?thesis
  proof (cases "p < 512")
    case True
    show ?thesis
    proof (cases "p = 0")
      case True then show ?thesis by (simp add: binary64_0 p_def f_def)
    next
      case False
      then have "0 < p" "p < 1000" using f True by (simp_all add: p_def)
      from ms_error [OF this] have "\<bar>binary64 p - p\<bar> \<le> 1" 
        by (simp add: power_int_minus_divide)
      with True have "binary64 p < 1000" by linarith
      then show ?thesis by (simp add: p_def f_def)
    qed
  next
    case False
    then have p: "0 < p" "p < 1000" using f by (simp_all add: p_def)
    have "(0::rat) \<le> of_int \<lfloor>s\<rfloor>" using assms(2) by simp
    moreover have "1 / 2 \<le> f" using False by (simp add: p_def)
    ultimately have half: "1 / 2 \<le> s" unfolding f_def by linarith
    then have spos: "0 < s" by simp
    have "- 1 \<le> flog2 s" using spos half by (intro flog2_ge) (simp_all add: power_int_minus_divide)
    then have g: "- 53 \<le> expo s" using expo_ge_flog2 [of s] by linarith
    have g0: "expo s \<le> 0" using spos assms(3) by (rule expo_le_zero)
    obtain n where n: "s = of_int n * 2 powi expo s"
      using is_binary64_grid [OF assms(1) spos] by blast
    obtain m where m: "s - of_int (\<lfloor>s\<rfloor> + 1) = of_int m * 2 powi expo s"
      using grid_diff [OF g0 n] by blast
    have "1 - f = of_int (- m) * 2 powi expo s"
      using m by (simp add: f_def algebra_simps)
    moreover have "0 < 1 - f" using f by simp
    ultimately have "2 powi expo s \<le> 1 - f" by (rule grid_pos_ge)
    moreover have "(2::rat) powi (- 53) \<le> 2 powi expo s"
      using g by (intro power_int_increasing) auto
    ultimately have "p \<le> 1000 - 1000 * 2 powi (- 53)"
      by (simp add: p_def)
    then have "p \<le> 1000 - 1000 / 9007199254740992"
      by (simp add: power_int_minus_divide)
    moreover from ms_error [OF p] have "\<bar>binary64 p - p\<bar> \<le> 1 / 17592186044416"
      by (simp add: power_int_minus_divide)
    ultimately have "binary64 p < 1000" by linarith
    then show ?thesis by (simp add: p_def f_def)
  qed
qed

lemma jsmod_1: "0 \<le> s \<Longrightarrow> jsmod s 1 = s - of_int \<lfloor>s\<rfloor>"
  by (simp add: jsmod_nonneg)

lemma ms_range:
  assumes "is_binary64 s" "0 \<le> s" "s < 2 ^ 53"
  shows "0 \<le> \<lfloor>fmul (jsmod s 1) 1000\<rfloor>" "\<lfloor>fmul (jsmod s 1) 1000\<rfloor> \<le> 999"
proof -
  define p where "p = (s - of_int \<lfloor>s\<rfloor>) * 1000"
  have f: "0 \<le> s - of_int \<lfloor>s\<rfloor>" "s - of_int \<lfloor>s\<rfloor> < 1" by linarith+
  then have p: "0 \<le> p" "p < 1000" by (simp_all add: p_def)
  have e: "fmul (jsmod s 1) 1000 = binary64 p"
    using assms(2) by (simp add: fmul_def jsmod_1 p_def)
  have "0 \<le> \<lfloor>p\<rfloor>" using p by simp
  with ms_lower [OF p] show "0 \<le> \<lfloor>fmul (jsmod s 1) 1000\<rfloor>" unfolding e by linarith
  have "binary64 p < 1000" unfolding p_def using assms by (rule ms_upper)
  then have "\<lfloor>binary64 p\<rfloor> < 1000" by (simp add: floor_less_iff)
  then show "\<lfloor>fmul (jsmod s 1) 1000\<rfloor> \<le> 999" unfolding e by simp
qed

lemma srtTimestamp_split:
  assumes "0 \<le> a" "0 \<le> m" "m \<le> 999"
  shows "srtTimestamp (nat (1000 * a + m)) =
     pad 2 (nat (a div 3600)) @ '':'' @ pad 2 (nat (a div 60 mod 60)) @ '':'' @
     pad 2 (nat (a mod 60)) @ '','' @ pad 3 (nat m)"
proof -
  have n: "nat (1000 * a + m) = 1000 * nat a + nat m"
    using assms by (simp add: nat_add_distrib nat_mult_distrib)
  have m: "nat m < 1000" using assms by simp
  have d: "nat (1000 * a + m) div 1000 = nat a" unfolding n using m by simp
  have r: "nat (1000 * a + m) mod 1000 = nat m" unfolding n using m by simp
  show ?thesis
    using assms(1)
    by (simp add: srtTimestamp_def Let_def d r nat_div_distrib nat_mod_distrib)
qed

lemma formatSRTTime_0: "formatSRTTime 0 = srtTimestamp 0"
  by code_simp

lemma formatSRTTime_srtMillis:
  assumes "is_binary64 s" "0 \<le> s" "s < 2 ^ 53"
  shows "formatSRTTime s = srtTimestamp (nat (srtMillis s))"
proof (cases "s = 0")
  case True
  have "srtMillis 0 = 0" by (simp add: srtMillis_def fmul_def jsmod_def binary64_0)
  then show ?thesis using True formatSRTTime_0 by simp
next
  case False
  then have s: "0 < s" using assms(2) by simp
  define a where "a = \<lfloor>s\<rfloor>"
  define m where "m = \<lfloor>fmul (jsmod s 1) 1000\<rfloor>"
  have a: "0 \<le> a" using assms(2) by (simp add: a_def)
  have m: "0 \<le> m" "m \<le> 999" unfolding m_def using assms by (rule ms_range)+
  have h: "toString (Math_floor (fdiv s 3600)) = string_of_nat (nat (a div 3600))"
    unfolding hours_exact [OF assms(1) s assms(3)] a_def [symmetric]
    using a by (intro toString_of_int) (simp add: pos_imp_zdiv_nonneg_iff)
  have mi: "toString (Math_floor (fdiv (jsmod s 3600) 60)) = string_of_nat (nat (a div 60 mod 60))"
    unfolding minutes_exact [OF assms(1) s assms(3)] a_def [symmetric]
    by (intro toString_of_int) simp
  have se: "toString (Math_floor (jsmod s 60)) = string_of_nat (nat (a mod 60))"
    unfolding secs_exact [OF assms(2)] a_def [symmetric]
    by (intro toString_of_int) simp
  have ms: "toString (Math_floor (fmul (jsmod s 1) 1000)) = string_of_nat (nat m)"
    unfolding Math_floor_def m_def [symmetric] using m(1) by (rule toString_of_int)
  have "formatSRTTime s =
     pad 2 (nat (a div 3600)) @ '':'' @ pad 2 (nat (a div 60 mod 60)) @ '':'' @
     pad 2 (nat (a mod 60)) @ '','' @ pad 3 (nat m)"
    unfolding formatSRTTime_def Let_def h mi se ms pad_def ..
  also have "\<dots> = srtTimestamp (nat (1000 * a + m))"
    using srtTimestamp_split [OF a m] by simp
  finally show ?thesis by (simp add: srtMillis_def a_def m_def)
qed

lemma srtMillis_bounds:
  assumes "is_binary64 s" "0 \<le> s" "s < 2 ^ 53"
  shows "\<lfloor>s * 1000\<rfloor> \<le> srtMillis s"
    and "of_int (srtMillis s) \<le> s * 1000 + 2 powi (- 44)"
    and "is_binary64 (jsmod s 1 * 1000) \<Longrightarrow> srtMillis s = \<lfloor>s * 1000\<rfloor>"
proof -
  define p where "p = (s - of_int \<lfloor>s\<rfloor>) * 1000"
  have f: "0 \<le> s - of_int \<lfloor>s\<rfloor>" "s - of_int \<lfloor>s\<rfloor> < 1" by linarith+
  then have p: "0 \<le> p" "p < 1000" by (simp_all add: p_def)
  have e: "fmul (jsmod s 1) 1000 = binary64 p"
    using assms(2) by (simp add: fmul_def jsmod_1 p_def)
  have fl: "\<lfloor>s * 1000\<rfloor> = 1000 * \<lfloor>s\<rfloor> + \<lfloor>p\<rfloor>"
  proof -
    have "s * 1000 = p + of_int (1000 * \<lfloor>s\<rfloor>)" by (simp add: p_def algebra_simps)
    then have "\<lfloor>s * 1000\<rfloor> = \<lfloor>p + of_int (1000 * \<lfloor>s\<rfloor>)\<rfloor>" by simp
    also have "\<dots> = \<lfloor>p\<rfloor> + 1000 * \<lfloor>s\<rfloor>" by (simp only: floor_add_int)
    finally show ?thesis by simp
  qed
  show "\<lfloor>s * 1000\<rfloor> \<le> srtMillis s"
    using ms_lower [OF p] by (simp add: srtMillis_def e fl)
  show "of_int (srtMillis s) \<le> s * 1000 + 2 powi (- 44)"
  proof (cases "p = 0")
    case True
    then show ?thesis using assms(2)
      by (simp add: srtMillis_def e binary64_0 p_def algebra_simps)
  next
    case False
    then have "0 < p" using p by simp
    from ms_error [OF this p(2)] have "binary64 p \<le> p + 2 powi (- 44)" by linarith
    moreover have "of_int \<lfloor>binary64 p\<rfloor> \<le> binary64 p" by simp
    ultimately have "of_int \<lfloor>binary64 p\<rfloor> \<le> p + 2 powi (- 44)" by linarith
    then show ?thesis by (simp add: srtMillis_def e p_def algebra_simps)
  qed
  show "srtMillis s = \<lfloor>s * 1000\<rfloor>" if "is_binary64 (jsmod s 1 * 1000)"
  proof -
    from that have "binary64 p = p"
      using assms(2) by (simp add: is_binary64_def jsmod_1 p_def)
    then show ?thesis by (simp add: srtMillis_def e fl)
  qed
qed

section \<open>Properties of the SRT encoder\<close>

lemma binary64_of_nat: assumes "n < 2 ^ 53" shows "binary64 (of_nat n) = of_nat n"
proof (cases "n = 0")
  case True then show ?thesis by (simp add: binary64_0)
next
  case False
  then have pos: "(0::rat) < of_nat n" by simp
  have "(of_nat n :: rat) < of_nat (2 ^ 53)" using assms by (simp only: of_nat_less_iff)
  then have "(of_nat n :: rat) < 2 ^ 53" by simp
  then have e: "expo (of_nat n) \<le> 0" using pos by (intro expo_le_zero)
  have "(of_nat n :: rat) = of_int (int n) * 2 powi 0" by simp
  with pos e show ?thesis by (rule binary64_exact_grid)
qed

lemma toString_of_nat: "toString (of_nat n) = string_of_nat n"
  by (simp add: toString_def)

lemma index_toString:
  assumes "index < 2 ^ 32" shows "toString (fadd (of_nat index) 1) = string_of_nat (index + 1)"
proof -
  have "index + 1 < 2 ^ 53" using assms by simp
  then have b: "binary64 (of_nat (index + 1)) = of_nat (index + 1)" by (rule binary64_of_nat)
  have e: "(of_nat index + 1 :: rat) = of_nat (index + 1)" by simp
  have "fadd (of_nat index) 1 = of_nat (index + 1)"
    unfolding fadd_def e by (rule b)
  then show ?thesis by (simp only: toString_of_nat)
qed

lemma map_enumerate: "map f (enumerate 0 xs) = map (\<lambda>i. f (i, xs ! i)) [0..<length xs]"
  by (rule nth_equalityI) (simp_all add: nth_enumerate_eq)

lemma encodeSRT_blocks:
  assumes "length cs < 2 ^ 32"
  shows "encodeSRT cs =
     join [CHR 0x0A]
       (map (\<lambda>i. string_of_nat (i + 1) @ [CHR 0x0A] @
                  formatSRTTime (start (cs ! i)) @ '' --> '' @ formatSRTTime (end' (cs ! i)) @
                  [CHR 0x0A] @ text' (cs ! i) @ [CHR 0x0A])
            [0..<length cs])"
proof -
  have "i < length cs \<Longrightarrow> toString (fadd (of_nat i) 1) = string_of_nat (i + 1)" for i
    using assms by (intro index_toString) simp
  then show ?thesis
    unfolding encodeSRT_def map_enumerate
    by (intro arg_cong [where f = "join [CHR 0x0A]"] map_cong) (simp_all add: Let_def)
qed

lemma length_string_of_nat_1: "n < 10 \<Longrightarrow> length (string_of_nat n) = 1"
  by (subst string_of_nat.simps) (simp add: Let_def)

lemma length_string_of_nat_2: "10 \<le> n \<Longrightarrow> n < 100 \<Longrightarrow> length (string_of_nat n) = 2"
  by (subst string_of_nat.simps) (simp add: length_string_of_nat_1 Let_def)

lemma length_string_of_nat_3: "100 \<le> n \<Longrightarrow> n < 1000 \<Longrightarrow> length (string_of_nat n) = 3"
  by (subst string_of_nat.simps) (simp add: length_string_of_nat_2 Let_def)

lemma length_pad_2: "n < 100 \<Longrightarrow> length (pad 2 n) = 2"
  by (cases "n < 10") (simp_all add: pad_def padStart_def length_string_of_nat_1 length_string_of_nat_2)

lemma length_pad_3: "n < 1000 \<Longrightarrow> length (pad 3 n) = 3"
proof -
  assume "n < 1000"
  then consider "n < 10" | "10 \<le> n" "n < 100" | "100 \<le> n" "n < 1000" by linarith
  then show ?thesis
    by cases (simp_all add: pad_def padStart_def length_string_of_nat_1
        length_string_of_nat_2 length_string_of_nat_3)
qed


section \<open>Properties of the generated cues\<close>

lemma length_makeCues: "length (makeCues texts) = length texts"
  by (simp add: makeCues_def)

lemma binary64_half_odd:
  assumes "0 < n" "n < 2 ^ 52" shows "binary64 (of_nat n - 1 / 2) = of_nat n - 1 / 2"
proof -
  define x :: rat where "x = of_nat n - 1 / 2"
  have "(1::rat) \<le> of_nat n" using assms(1) by simp
  then have pos: "0 < x" by (simp add: x_def)
  have "(of_nat n :: rat) < of_nat (2 ^ 52)" using assms(2) by (simp only: of_nat_less_iff)
  then have "x < 2 powi 52" by (simp add: x_def)
  then have e: "expo x \<le> - 1" using expo_le [OF pos, of 52] by simp
  have "x = of_int (2 * int n - 1) * 2 powi (- 1)"
    by (simp add: x_def power_int_minus_divide algebra_simps)
  with pos e have "binary64 x = x" by (rule binary64_exact_grid)
  then show ?thesis by (simp add: x_def)
qed

lemma makeCues_nth:
  assumes "i < length texts" "length texts < 2 ^ 32"
  shows "makeCues texts ! i =
    \<lparr>start = of_nat i * 4, end' = of_nat (i + 1) * 4 - 1 / 2, text' = texts ! i\<rparr>"
proof -
  have i: "i < 2 ^ 32" using assms by simp
  have s: "fmul (of_nat i) 4 = of_nat i * 4"
  proof -
    have "4 * i < 2 ^ 53" using i by simp
    then have b: "binary64 (of_nat (4 * i)) = of_nat (4 * i)" by (rule binary64_of_nat)
    have c: "(of_nat i * 4 :: rat) = of_nat (4 * i)" by simp
    show ?thesis unfolding fmul_def c by (rule b)
  qed
  have a: "fadd (of_nat i) 1 = of_nat (i + 1)"
  proof -
    have "i + 1 < 2 ^ 53" using i by simp
    then have b: "binary64 (of_nat (i + 1)) = of_nat (i + 1)" by (rule binary64_of_nat)
    have c: "(of_nat i + 1 :: rat) = of_nat (i + 1)" by simp
    show ?thesis unfolding fadd_def c by (rule b)
  qed
  have m: "fmul (of_nat (i + 1)) 4 = of_nat (4 * (i + 1))"
  proof -
    have "4 * (i + 1) < 2 ^ 53" using i by simp
    then have b: "binary64 (of_nat (4 * (i + 1))) = of_nat (4 * (i + 1))" by (rule binary64_of_nat)
    have c: "(of_nat (i + 1) * 4 :: rat) = of_nat (4 * (i + 1))" by simp
    show ?thesis unfolding fmul_def c by (rule b)
  qed
  have e: "fsub (of_nat (4 * (i + 1))) (1 / 2) = of_nat (i + 1) * 4 - 1 / 2"
  proof -
    have "0 < 4 * (i + 1)" "4 * (i + 1) < 2 ^ 52" using i by simp_all
    then have b: "binary64 (of_nat (4 * (i + 1)) - 1 / 2) = of_nat (4 * (i + 1)) - 1 / 2"
      by (rule binary64_half_odd)
    have c: "(of_nat (i + 1) * 4 :: rat) = of_nat (4 * (i + 1))" by simp
    show ?thesis unfolding fsub_def c by (rule b)
  qed
  have "makeCues texts ! i =
    \<lparr>start = fmul (of_nat i) 4, end' = fsub (fmul (fadd (of_nat i) 1) 4) (1 / 2),
     text' = texts ! i\<rparr>"
    using assms(1) by (simp add: makeCues_def nth_enumerate_eq)
  then show ?thesis unfolding s a m e .
qed

lemma is_binary64_half: assumes "n < 2 ^ 53" shows "is_binary64 (of_nat n / 2)"
proof (cases "n = 0")
  case True then show ?thesis by (simp add: is_binary64_def binary64_0)
next
  case False
  define x :: rat where "x = of_nat n / 2"
  have pos: "0 < x" using False by (simp add: x_def)
  have "(of_nat n :: rat) < of_nat (2 ^ 53)" using assms by (simp only: of_nat_less_iff)
  then have "x < 2 powi 52" by (simp add: x_def)
  then have e: "expo x \<le> - 1" using expo_le [OF pos, of 52] by simp
  have "x = of_int (int n) * 2 powi (- 1)"
    by (simp add: x_def power_int_minus_divide)
  with pos e have "binary64 x = x" by (rule binary64_exact_grid)
  then show ?thesis by (simp add: x_def is_binary64_def)
qed

lemma formatSRTTime_half:
  assumes "n < 2 ^ 53" shows "formatSRTTime (of_nat n / 2) = srtTimestamp (500 * n)"
proof -
  define s :: rat where "s = of_nat n / 2"
  have b: "is_binary64 s" unfolding s_def using assms by (rule is_binary64_half)
  have s0: "0 \<le> s" by (simp add: s_def)
  have "(of_nat n :: rat) < of_nat (2 ^ 53)" using assms by (simp only: of_nat_less_iff)
  then have s53: "s < 2 ^ 53" by (simp add: s_def)
  have fl: "\<lfloor>s\<rfloor> = int (n div 2)"
    using floor_divide_of_nat_eq [of n 2, where ?'a = rat] by (simp add: s_def)
  have "s - of_int \<lfloor>s\<rfloor> = of_nat (n mod 2) / 2"
  proof -
    have "n = 2 * (n div 2) + n mod 2" by simp
    then have "(of_nat n :: rat) = of_nat (2 * (n div 2) + n mod 2)" by simp
    then have r: "(of_nat n :: rat) = 2 * of_nat (n div 2) + of_nat (n mod 2)"
      by (simp only: of_nat_add of_nat_mult of_nat_numeral)
    have "s - of_int \<lfloor>s\<rfloor> = of_nat n / 2 - of_nat (n div 2)"
      unfolding fl by (simp add: s_def)
    also have "\<dots> = of_nat (n mod 2) / 2"
      by (subst r) (simp add: field_simps)
    finally show ?thesis .
  qed
  then have "jsmod s 1 = of_nat (n mod 2) / 2"
    using s0 by (simp only: jsmod_1)
  then have j: "jsmod s 1 * 1000 = of_nat (500 * (n mod 2))" by simp
  have "500 * (n mod 2) \<le> 500" by simp
  also have "(500::nat) < 2 ^ 53" by simp
  finally have "500 * (n mod 2) < 2 ^ 53" .
  then have "binary64 (of_nat (500 * (n mod 2))) = of_nat (500 * (n mod 2))"
    by (rule binary64_of_nat)
  then have "is_binary64 (jsmod s 1 * 1000)" unfolding is_binary64_def j .
  then have "srtMillis s = \<lfloor>s * 1000\<rfloor>" by (rule srtMillis_bounds (3) [OF b s0 s53])
  also have "s * 1000 = of_nat (500 * n)" by (simp add: s_def)
  also have "\<lfloor>of_nat (500 * n) :: rat\<rfloor> = int (500 * n)" by (rule floor_of_nat)
  finally have "nat (srtMillis s) = 500 * n" by simp
  then show ?thesis
    using formatSRTTime_srtMillis [OF b s0 s53] by (simp add: s_def)
qed

lemma formatSRTTime_start:
  assumes "i < 2 ^ 32" shows "formatSRTTime (of_nat i * 4) = srtTimestamp (4000 * i)"
proof -
  have "8 * i < 2 ^ 53" using assms by simp
  then have "formatSRTTime (of_nat (8 * i) / 2) = srtTimestamp (500 * (8 * i))"
    by (rule formatSRTTime_half)
  moreover have "(of_nat (8 * i) / 2 :: rat) = of_nat i * 4" by simp
  moreover have "500 * (8 * i) = 4000 * i" by simp
  ultimately show ?thesis by (simp only:)
qed

lemma formatSRTTime_end:
  assumes "i < 2 ^ 32"
  shows "formatSRTTime (of_nat (i + 1) * 4 - 1 / 2) = srtTimestamp (4000 * i + 3500)"
proof -
  have "8 * i + 7 < 2 ^ 53" using assms by simp
  then have "formatSRTTime (of_nat (8 * i + 7) / 2) = srtTimestamp (500 * (8 * i + 7))"
    by (rule formatSRTTime_half)
  moreover have "(of_nat (8 * i + 7) / 2 :: rat) = of_nat (i + 1) * 4 - 1 / 2"
    by (simp add: field_simps)
  moreover have "500 * (8 * i + 7) = 4000 * i + 3500" by simp
  ultimately show ?thesis by (simp only:)
qed

lemma encodeSRT_makeCues:
  assumes "length texts < 2 ^ 32"
  shows "encodeSRT (makeCues texts) =
     join [CHR 0x0A]
       (map (\<lambda>i. string_of_nat (i + 1) @ [CHR 0x0A] @
                  srtTimestamp (4000 * i) @ '' --> '' @ srtTimestamp (4000 * i + 3500) @
                  [CHR 0x0A] @ texts ! i @ [CHR 0x0A])
            [0..<length texts])"
proof -
  have "encodeSRT (makeCues texts) =
     join [CHR 0x0A]
       (map (\<lambda>i. string_of_nat (i + 1) @ [CHR 0x0A] @
                  formatSRTTime (start (makeCues texts ! i)) @ '' --> '' @
                  formatSRTTime (end' (makeCues texts ! i)) @
                  [CHR 0x0A] @ text' (makeCues texts ! i) @ [CHR 0x0A])
            [0..<length (makeCues texts)])"
    using assms by (intro encodeSRT_blocks) (simp add: length_makeCues)
  also have "\<dots> = join [CHR 0x0A]
       (map (\<lambda>i. string_of_nat (i + 1) @ [CHR 0x0A] @
                  srtTimestamp (4000 * i) @ '' --> '' @ srtTimestamp (4000 * i + 3500) @
                  [CHR 0x0A] @ texts ! i @ [CHR 0x0A])
            [0..<length texts])"
    unfolding length_makeCues
  proof (intro arg_cong [where f = "join [CHR 0x0A]"] map_cong refl)
    fix i assume "i \<in> set [0..<length texts]"
    then have i: "i < length texts" by simp
    then have "i < 2 ^ 32" using assms by simp
    then show "string_of_nat (i + 1) @ [CHR 0x0A] @
                  formatSRTTime (start (makeCues texts ! i)) @ '' --> '' @
                  formatSRTTime (end' (makeCues texts ! i)) @
                  [CHR 0x0A] @ text' (makeCues texts ! i) @ [CHR 0x0A] =
               string_of_nat (i + 1) @ [CHR 0x0A] @
                  srtTimestamp (4000 * i) @ '' --> '' @ srtTimestamp (4000 * i + 3500) @
                  [CHR 0x0A] @ texts ! i @ [CHR 0x0A]"
      unfolding makeCues_nth [OF i assms] SubtitleCue.simps
      by (simp only: formatSRTTime_start formatSRTTime_end)
  qed
  finally show ?thesis .
qed

lemma subtitleTexts_length: "map_of subtitleTexts lang = Some texts \<Longrightarrow> length texts = 5"
  by (auto simp: subtitleTexts_def texts_en_def texts_ur_def texts_ru_ur_def texts_es_def
      texts_fr_def texts_de_def split: if_splits)

lemma map_of_subtitleTexts_None:
  "map_of subtitleTexts lang = None \<longleftrightarrow>
     lang \<notin> set [''en'', ''ur'', ''ru-ur'', ''es'', ''fr'', ''de'']"
  by (simp add: subtitleTexts_def)

lemma map_of_subtitleTexts_en: "map_of subtitleTexts ''en'' = Some texts_en"
  by (simp add: subtitleTexts_def)

lemma generate_supported:
  "map_of subtitleTexts lang = Some texts \<Longrightarrow>
     generateMockSubtitleData lang =
       Inr \<lparr>language = lang, cues = makeCues texts, srt = encodeSRT (makeCues texts)\<rparr>"
  by (simp add: generateMockSubtitleData_def)

lemma generate_fallback:
  "map_of subtitleTexts lang = None \<Longrightarrow> lang \<notin> set objectPrototypeKeys \<Longrightarrow>
     generateMockSubtitleData lang =
       Inr \<lparr>language = lang, cues = makeCues texts_en, srt = encodeSRT (makeCues texts_en)\<rparr>"
  by (simp add: generateMockSubtitleData_def)

lemma srtTimestamp_0: "srtTimestamp 0 = ''00:00:00,000''" by code_simp
lemma srtTimestamp_3500: "srtTimestamp 3500 = ''00:00:03,500''" by code_simp
lemma string_of_nat_1: "string_of_nat 1 = ''1''" by code_simp

lemma upt_5: "[0..<5] = [0, 1, 2, 3, 4]"
  by (simp add: upt_rec)

lemma string_of_nat_Suc_0: "string_of_nat (Suc 0) = ''1''" by code_simp

lemma srt_en_prefix:
  "prefix (''1'' @ [CHR 0x0A] @ ''00:00:00,000 --> 00:00:03,500'' @ [CHR 0x0A] @
           ''Welcome to this video demonstration.'' @ [CHR 0x0A])
     (encodeSRT (makeCues texts_en))"
proof -
  define f where "f = (\<lambda>i. string_of_nat (i + 1) @ [CHR 0x0A] @
                  srtTimestamp (4000 * i) @ '' --> '' @ srtTimestamp (4000 * i + 3500) @
                  [CHR 0x0A] @ texts_en ! i @ [CHR 0x0A])"
  have l: "length texts_en = 5" by (simp add: texts_en_def)
  have t: "texts_en ! 0 = ''Welcome to this video demonstration.''" by (simp add: texts_en_def)
  have "encodeSRT (makeCues texts_en) = join [CHR 0x0A] (map f [0..<length texts_en])"
    unfolding f_def by (rule encodeSRT_makeCues) (simp add: l)
  also have "\<dots> = f 0 @ [CHR 0x0A] @ join [CHR 0x0A] (map f [1, 2, 3, 4])"
    unfolding l upt_5 by simp
  finally have "prefix (f 0) (encodeSRT (makeCues texts_en))" by simp
  moreover have "f 0 = ''1'' @ [CHR 0x0A] @ ''00:00:00,000 --> 00:00:03,500'' @ [CHR 0x0A] @
           ''Welcome to this video demonstration.'' @ [CHR 0x0A]"
    by (simp add: f_def srtTimestamp_0 srtTimestamp_3500 string_of_nat_Suc_0 t)
  ultimately show ?thesis by simp
qed

section \<open>Properties of the reference parser\<close>

lemma digit_char_of: "d < 10 \<Longrightarrow> digit (digit_char d) = Some d"
  by (simp add: digit_def digit_char_def Let_def)

lemma digit_zero: "digit CHR ''0'' = Some 0"
  by (simp add: digit_def)

lemma parse_digits_snoc:
  "d < 10 \<Longrightarrow> parse_digits acc (xs @ [digit_char d]) =
     map_option (\<lambda>a. 10 * a + d) (parse_digits acc xs)"
  by (induction xs arbitrary: acc) (auto simp: digit_char_of split: option.splits)

lemma parse_digits_string_of_nat: "parse_digits 0 (string_of_nat m) = Some m"
proof (induction m rule: string_of_nat.induct)
  case (1 n)
  show ?case
  proof (cases "n < 10")
    case True
    then show ?thesis
      by (subst string_of_nat.simps) (simp add: digit_char_of Let_def)
  next
    case False
    have "n mod 10 < 10" by simp
    then have "parse_digits 0 (string_of_nat (n div 10) @ [digit_char (n mod 10)]) =
        map_option (\<lambda>a. 10 * a + n mod 10) (parse_digits 0 (string_of_nat (n div 10)))"
      by (rule parse_digits_snoc)
    then show ?thesis
      using False 1 by (subst string_of_nat.simps) (simp add: Let_def)
  qed
qed

lemma string_of_nat_nonempty: "string_of_nat m \<noteq> []"
  by (subst string_of_nat.simps) (simp add: Let_def)

lemma digits_string_of_nat: "digits (string_of_nat m)"
proof (induction m rule: string_of_nat.induct)
  case (1 n)
  have "n mod 10 < 10" by simp
  then have d: "digit (digit_char (n mod 10)) \<noteq> None" by (simp add: digit_char_of)
  show ?case
  proof (cases "n < 10")
    case True
    then show ?thesis using d by (subst string_of_nat.simps) (simp add: digits_def Let_def)
  next
    case False
    then show ?thesis using d 1 by (subst string_of_nat.simps) (simp add: digits_def Let_def)
  qed
qed

lemma parse_digits_zeros: "parse_digits 0 (replicate k CHR ''0'' @ s) = parse_digits 0 s"
  by (induction k) (simp_all add: digit_zero)

lemma parse_nat_pad: "parse_nat (pad w m) = Some m"
  by (simp add: parse_nat_def pad_def padStart_def parse_digits_zeros
      parse_digits_string_of_nat string_of_nat_nonempty)

lemma digits_pad: "digits (pad w m)"
  using digits_string_of_nat [of m] by (auto simp: digits_def pad_def padStart_def digit_zero)

lemma length_pad_ge: "w \<le> length (pad w m)"
  by (simp add: pad_def padStart_def)

lemma digits_not: "digits s \<Longrightarrow> digit c = None \<Longrightarrow> c \<notin> set s"
  by (auto simp: digits_def)

lemma digit_space: "digit CHR '' '' = None" by (simp add: digit_def)
lemma digit_colon: "digit CHR '':'' = None" by (simp add: digit_def)
lemma digit_comma: "digit CHR '','' = None" by (simp add: digit_def)
lemma digit_LF: "digit (CHR 0x0A) = None" by (simp add: digit_def)

lemma list_length_2: "length xs = 2 \<Longrightarrow> \<exists>a b. xs = [a, b]"
  by (cases xs; cases "tl xs") auto

lemma list_length_3: "length xs = 3 \<Longrightarrow> \<exists>a b c. xs = [a, b, c]"
  by (cases xs; cases "tl xs"; cases "tl (tl xs)") auto

lemma seconds_split: "(s::nat) div 3600 * 3600 + s div 60 mod 60 * 60 + s mod 60 = s"
proof -
  have "s mod 3600 = 60 * (s div 60 mod 60) + s mod 60"
    using mod_mult2_eq [of s 60 60] by simp
  moreover have "s = s div 3600 * 3600 + s mod 3600" by simp
  ultimately show ?thesis by linarith
qed

lemma parseSRTTime_srtTimestamp: "parseSRTTime (srtTimestamp ms) = Some (of_nat ms / 1000)"
proof -
  define sec where "sec = ms div 1000"
  define H where "H = pad 2 (sec div 3600)"
  have b1: "sec div 60 mod 60 < 100"
    using mod_less_divisor [of 60 "sec div 60"] by linarith
  have b2: "sec mod 60 < 100"
    using mod_less_divisor [of 60 sec] by linarith
  have b3: "ms mod 1000 < 1000" by simp
  obtain n1 n2 where M: "pad 2 (sec div 60 mod 60) = [n1, n2]"
    using list_length_2 [OF length_pad_2 [OF b1]] by blast
  obtain s1 s2 where S: "pad 2 (sec mod 60) = [s1, s2]"
    using list_length_2 [OF length_pad_2 [OF b2]] by blast
  obtain m1 m2 m3 where MS: "pad 3 (ms mod 1000) = [m1, m2, m3]"
    using list_length_3 [OF length_pad_3 [OF b3]] by blast
  have str: "srtTimestamp ms = H @ '':'' @ [n1, n2] @ '':'' @ [s1, s2] @ '','' @ [m1, m2, m3]"
    by (simp add: srtTimestamp_def Let_def sec_def [symmetric] H_def M S MS)
  have r: "rev (srtTimestamp ms) =
      m3 # m2 # m1 # CHR '','' # s2 # s1 # CHR '':'' # n2 # n1 # CHR '':'' # rev H"
    by (simp add: str)
  have h: "parse_nat (rev (rev H)) = Some (sec div 3600)" by (simp add: H_def parse_nat_pad)
  have mi: "parse_nat [n1, n2] = Some (sec div 60 mod 60)" unfolding M [symmetric] by (rule parse_nat_pad)
  have s: "parse_nat [s1, s2] = Some (sec mod 60)" unfolding S [symmetric] by (rule parse_nat_pad)
  have m: "parse_nat [m1, m2, m3] = Some (ms mod 1000)" unfolding MS [symmetric] by (rule parse_nat_pad)
  have l: "2 \<le> length (rev H)" using length_pad_ge [of 2 "sec div 3600"] by (simp add: H_def)
  have "parseSRTTime (srtTimestamp ms) =
      Some (of_nat (sec div 3600 * 3600 + sec div 60 mod 60 * 60 + sec mod 60)
            + of_nat (ms mod 1000) / 1000)"
    unfolding parseSRTTime_def r using l by (simp add: h mi s m del: rev_rev_ident)
  also have "sec div 3600 * 3600 + sec div 60 mod 60 * 60 + sec mod 60 = sec"
    by (rule seconds_split)
  also have "(of_nat sec :: rat) + of_nat (ms mod 1000) / 1000 = of_nat ms / 1000"
  proof -
    have "ms = 1000 * sec + ms mod 1000" by (simp add: sec_def)
    then have "(of_nat ms :: rat) = of_nat (1000 * sec + ms mod 1000)" by simp
    then have "(of_nat ms :: rat) = 1000 * of_nat sec + of_nat (ms mod 1000)"
      by (simp only: of_nat_add of_nat_mult of_nat_numeral)
    then show ?thesis by (simp add: field_simps)
  qed
  finally show ?thesis .
qed

lemma digits_srtTimestamp_chars:
  assumes "c \<in> set (srtTimestamp ms)" shows "digit c \<noteq> None \<or> c = CHR '':'' \<or> c = CHR '',''"
  using assms digits_pad
  by (auto simp: srtTimestamp_def Let_def digits_def)

lemma space_notin_srtTimestamp: "CHR '' '' \<notin> set (srtTimestamp ms)"
  using digits_srtTimestamp_chars [of "CHR '' ''" ms] by (auto simp: digit_space)

lemma takeWhile_stop: "\<forall>x\<in>set xs. P x \<Longrightarrow> \<not> P y \<Longrightarrow> takeWhile P (xs @ y # ys) = xs"
  by (induction xs) auto

lemma dropWhile_stop: "\<forall>x\<in>set xs. P x \<Longrightarrow> \<not> P y \<Longrightarrow> dropWhile P (xs @ y # ys) = y # ys"
  by (induction xs) auto

lemma parseTiming_srtTimestamp:
  "parseTiming (srtTimestamp a @ '' --> '' @ srtTimestamp b) =
     Some (of_nat a / 1000, of_nat b / 1000)"
proof -
  have ns: "\<forall>x\<in>set (srtTimestamp a). x \<noteq> CHR '' ''"
    using space_notin_srtTimestamp [of a] by auto
  have e: "'' --> '' @ srtTimestamp b = CHR '' '' # (''--> '' @ srtTimestamp b)" by simp
  have t: "takeWhile (\<lambda>c. c \<noteq> CHR '' '') (srtTimestamp a @ '' --> '' @ srtTimestamp b)
       = srtTimestamp a"
    unfolding e using ns by (intro takeWhile_stop) simp_all
  have d: "dropWhile (\<lambda>c. c \<noteq> CHR '' '') (srtTimestamp a @ '' --> '' @ srtTimestamp b)
       = '' --> '' @ srtTimestamp b"
    unfolding e using ns by (intro dropWhile_stop) simp_all
  show ?thesis
    unfolding parseTiming_def Let_def t d
    by (simp add: parseSRTTime_srtTimestamp)
qed

lemma splitOn_no_sep: "c \<notin> set a \<Longrightarrow> splitOn c a = [a]"
  by (induction a) auto

lemma splitOn_sep: "c \<notin> set a \<Longrightarrow> splitOn c (a @ c # rest) = a # splitOn c rest"
  by (induction a) auto

lemma LF_notin_string_of_nat: "CHR 0x0A \<notin> set (string_of_nat m)"
  using digits_string_of_nat [of m] by (auto simp: digits_def digit_LF)

lemma LF_notin_srtTimestamp: "CHR 0x0A \<notin> set (srtTimestamp ms)"
  using digits_srtTimestamp_chars [of "CHR 0x0A" ms] by (auto simp: digit_LF)

lemma splitOn_block:
  assumes "CHR 0x0A \<notin> set (X i)"
  shows "splitOn (CHR 0x0A) (blockText X i @ rest) =
     string_of_nat (i + 1) #
     (srtTimestamp (4000 * i) @ '' --> '' @ srtTimestamp (4000 * i + 3500)) #
     X i # splitOn (CHR 0x0A) rest"
proof -
  have t: "CHR 0x0A \<notin> set (srtTimestamp (4000 * i) @ '' --> '' @ srtTimestamp (4000 * i + 3500))"
    by (simp add: LF_notin_srtTimestamp)
  have "blockText X i @ rest =
      string_of_nat (i + 1) @ CHR 0x0A #
      ((srtTimestamp (4000 * i) @ '' --> '' @ srtTimestamp (4000 * i + 3500)) @ CHR 0x0A #
       (X i @ CHR 0x0A # rest))"
    by (simp add: blockText_def)
  then show ?thesis
    by (simp only: splitOn_sep [OF LF_notin_string_of_nat] splitOn_sep [OF t]
        splitOn_sep [OF assms])
qed

lemma splitOn_last_block:
  assumes "CHR 0x0A \<notin> set (X i)"
  shows "splitOn (CHR 0x0A) (blockText X i) = blockLines X i"
  using splitOn_block [where X = X and i = i and rest = "[]", OF assms]
  by (simp add: blockLines_def)

lemma splitOn_next_block:
  assumes "CHR 0x0A \<notin> set (X i)"
  shows "splitOn (CHR 0x0A) (blockText X i @ CHR 0x0A # rest) =
     blockLines X i @ splitOn (CHR 0x0A) rest"
  using splitOn_block [where X = X and i = i and rest = "CHR 0x0A # rest", OF assms]
  by (simp add: blockLines_def)

lemma splitOn_blocks:
  assumes "\<forall>i\<in>set is. CHR 0x0A \<notin> set (X i)" "is \<noteq> []"
  shows "splitOn (CHR 0x0A) (join [CHR 0x0A] (map (blockText X) is)) =
     concat (map (blockLines X) is)"
  using assms
proof (induction "is")
  case Nil
  then show ?case by simp
next
  case (Cons i js)
  then have i: "CHR 0x0A \<notin> set (X i)" by simp
  show ?case
  proof (cases js)
    case Nil
    then show ?thesis using splitOn_last_block [where X = X and i = i, OF i] by simp
  next
    case (Cons j ks)
    then have "join [CHR 0x0A] (map (blockText X) (i # js)) =
        blockText X i @ CHR 0x0A # join [CHR 0x0A] (map (blockText X) js)"
      by simp
    moreover have "splitOn (CHR 0x0A) (join [CHR 0x0A] (map (blockText X) js)) =
        concat (map (blockLines X) js)"
      using Cons.IH Cons.prems Cons by simp
    ultimately show ?thesis
      by (simp add: splitOn_next_block [where X = X and i = i, OF i])
  qed
qed

lemma decodeLines_block:
  "decodeLines ExpectIndex (i + 1) acc (blockLines X i @ rest) =
     decodeLines ExpectIndex (i + 2) (blockCue X i # acc) rest"
proof -
  define T where "T = srtTimestamp (4000 * i) @ '' --> '' @ srtTimestamp (4000 * i + 3500)"
  have pT: "parseTiming T = Some (of_nat (4000 * i) / 1000, of_nat (4000 * i + 3500) / 1000)"
    unfolding T_def by (rule parseTiming_srtTimestamp)
  have bl: "blockLines X i = [string_of_nat (i + 1), T, X i, []]"
    by (simp add: blockLines_def T_def)
  have pn: "parse_nat (string_of_nat (i + 1)) = Some (i + 1)"
    using parse_nat_pad [of 0 "i + 1"] by (simp add: pad_def padStart_def)
  have "decodeLines ExpectIndex (i + 1) acc (blockLines X i @ rest) =
      decodeLines (InText (of_nat (4000 * i) / 1000) (of_nat (4000 * i + 3500) / 1000) []) (i + 1) acc
        (X i # [] # rest)"
    unfolding bl using pn by (simp add: string_of_nat_nonempty pT)
  also have "\<dots> = decodeLines ExpectIndex (i + 2) (blockCue X i # acc) rest"
    by (cases "X i = []") (simp_all add: blockCue_def)
  finally show ?thesis .
qed

lemma decodeLines_blocks:
  "decodeLines ExpectIndex (k + 1) acc (concat (map (blockLines X) [k..<k + m])) =
     Some (rev acc @ map (blockCue X) [k..<k + m])"
proof (induction m arbitrary: k acc)
  case 0
  then show ?case by simp
next
  case (Suc m)
  have "[k..<k + Suc m] = k # [Suc k..<Suc k + m]" by (simp add: upt_conv_Cons)
  then show ?case
    using Suc.IH [of "Suc k" "blockCue X k # acc"] decodeLines_block [of k acc X]
    by simp
qed

lemma makeCues_blockCue:
  assumes "length texts < 2 ^ 32"
  shows "makeCues texts = map (blockCue (\<lambda>i. texts ! i)) [0..<length texts]"
proof (rule nth_equalityI)
  show "length (makeCues texts) = length (map (blockCue (\<lambda>i. texts ! i)) [0..<length texts])"
    by (simp add: length_makeCues)
next
  fix i assume "i < length (makeCues texts)"
  then have i: "i < length texts" by (simp add: length_makeCues)
  have "(of_nat (4000 * i) / 1000 :: rat) = of_nat i * 4" by simp
  moreover have "(of_nat (4000 * i + 3500) / 1000 :: rat) = of_nat (i + 1) * 4 - 1 / 2"
    by (simp add: field_simps)
  ultimately show "makeCues texts ! i = map (blockCue (\<lambda>i. texts ! i)) [0..<length texts] ! i"
    using i by (simp add: makeCues_nth [OF i assms] blockCue_def)
qed

lemma decodeSRT_encodeSRT_makeCues:
  assumes "length texts < 2 ^ 32" "\<forall>t\<in>set texts. CHR 0x0A \<notin> set t"
  shows "decodeSRT (encodeSRT (makeCues texts)) = Some (makeCues texts)"
proof (cases "texts = []")
  case True
  then show ?thesis by (simp add: decodeSRT_def encodeSRT_def makeCues_def enumerate_eq_zip)
next
  case False
  define X where "X = (\<lambda>i. texts ! i)"
  have e: "encodeSRT (makeCues texts) = join [CHR 0x0A] (map (blockText X) [0..<length texts])"
    unfolding encodeSRT_makeCues [OF assms(1)] X_def blockText_def ..
  have "\<forall>i\<in>set [0..<length texts]. CHR 0x0A \<notin> set (X i)"
    using assms(2) by (simp add: X_def)
  moreover have "[0..<length texts] \<noteq> []" using False by simp
  ultimately have "splitOn (CHR 0x0A) (encodeSRT (makeCues texts)) =
      concat (map (blockLines X) [0..<length texts])"
    unfolding e by (rule splitOn_blocks)
  then have "decodeSRT (encodeSRT (makeCues texts)) =
      Some (map (blockCue X) [0..<length texts])"
    using decodeLines_blocks [of 0 "[]" X "length texts"] by (simp add: decodeSRT_def)
  then show ?thesis
    unfolding X_def makeCues_blockCue [OF assms(1), symmetric] .
qed

lemma subtitleTexts_no_LF:
  "map_of subtitleTexts lang = Some texts \<Longrightarrow> \<forall>t\<in>set texts. CHR 0x0A \<notin> set t"
  by (auto simp: subtitleTexts_def texts_en_def texts_ur_def texts_ru_ur_def texts_es_def
      texts_fr_def texts_de_def split: if_splits)

lemma generated_round_trip:
  assumes "generateMockSubtitleData lang = Inr d"
  shows "decodeSRT (srt d) = Some (cues d)"
proof (cases "map_of subtitleTexts lang")
  case None
  have "decodeSRT (encodeSRT (makeCues texts_en)) = Some (makeCues texts_en)"
    using subtitleTexts_length [OF map_of_subtitleTexts_en]
      subtitleTexts_no_LF [OF map_of_subtitleTexts_en]
    by (intro decodeSRT_encodeSRT_makeCues) simp_all
  then show ?thesis
    using assms None by (auto simp: generateMockSubtitleData_def split: if_splits)
next
  case (Some texts)
  have "decodeSRT (encodeSRT (makeCues texts)) = Some (makeCues texts)"
    using subtitleTexts_length [OF Some] subtitleTexts_no_LF [OF Some]
    by (intro decodeSRT_encodeSRT_makeCues) simp_all
  then show ?thesis
    using assms Some by (auto simp: generateMockSubtitleData_def)
qed

section \<open>Properties of the cue lookup\<close>

lemma chronological_Cons: "chronological (c # cs) \<Longrightarrow> chronological cs"
  by (cases cs) auto

lemma chronological_head:
  "chronological (c # cs) \<Longrightarrow> 0 \<le> start c \<and> start c < end' c"
  by (cases cs) auto

lemma chronological_later:
  "chronological (c # cs) \<Longrightarrow> d \<in> set cs \<Longrightarrow> end' c \<le> start d"
proof (induction cs arbitrary: c)
  case Nil
  then show ?case by simp
next
  case (Cons e es)
  from Cons.prems(1) have ce: "end' c \<le> start e" and sub: "chronological (e # es)"
    and e: "start e < end' e" by (auto dest: chronological_head)
  show ?case
  proof (cases "d = e")
    case True
    then show ?thesis using ce by simp
  next
    case False
    then have "d \<in> set es" using Cons.prems(2) by simp
    from Cons.IH [OF sub this] ce e show ?thesis by linarith
  qed
qed

lemma chronological_nth:
  "chronological cs \<Longrightarrow> i < length cs \<Longrightarrow> 0 \<le> start (cs ! i) \<and> start (cs ! i) < end' (cs ! i)"
proof (induction cs arbitrary: i)
  case Nil
  then show ?case by simp
next
  case (Cons c cs)
  show ?case
  proof (cases i)
    case 0
    then show ?thesis using chronological_head [OF Cons.prems(1)] by simp
  next
    case (Suc k)
    then show ?thesis
      using Cons.IH [OF chronological_Cons [OF Cons.prems(1)], of k] Cons.prems(2) by simp
  qed
qed

lemma chronological_order:
  "chronological cs \<Longrightarrow> i < j \<Longrightarrow> j < length cs \<Longrightarrow> end' (cs ! i) \<le> start (cs ! j)"
proof (induction cs arbitrary: i j)
  case Nil
  then show ?case by simp
next
  case (Cons c cs)
  obtain k where j: "j = Suc k" using Cons.prems(2) by (cases j) auto
  show ?case
  proof (cases i)
    case 0
    have "cs ! k \<in> set cs" using Cons.prems(3) j by simp
    from chronological_later [OF Cons.prems(1) this] show ?thesis using 0 j by simp
  next
    case (Suc m)
    then show ?thesis
      using Cons.IH [OF chronological_Cons [OF Cons.prems(1)], of m k] Cons.prems(2,3) j by simp
  qed
qed

lemma activeCue_first:
  assumes "i < length (cues d)"
    and "start (cues d ! i) \<le> t" "t \<le> end' (cues d ! i)"
    and "\<forall>j<i. \<not> (start (cues d ! j) \<le> t \<and> t \<le> end' (cues d ! j))"
  shows "activeCue d t = text' (cues d ! i)"
proof -
  have "find (\<lambda>cue. start cue \<le> t \<and> t \<le> end' cue) (cues d) = Some (cues d ! i)"
    unfolding find_Some_iff using assms by blast
  then show ?thesis by (simp add: activeCue_def currentCue_def)
qed

lemma activeCue_none:
  assumes "\<forall>c\<in>set (cues d). \<not> (start c \<le> t \<and> t \<le> end' c)"
  shows "activeCue d t = ''''"
proof -
  have "find (\<lambda>cue. start cue \<le> t \<and> t \<le> end' cue) (cues d) = None"
    unfolding find_None_iff using assms by blast
  then show ?thesis by (simp add: activeCue_def currentCue_def)
qed

lemma activeCue_end:
  assumes "chronological (cues d)" "i < length (cues d)"
  shows "activeCue d (end' (cues d ! i)) = text' (cues d ! i)"
proof (rule activeCue_first [OF assms(2)])
  show "start (cues d ! i) \<le> end' (cues d ! i)"
    using chronological_nth [OF assms] by simp
  show "end' (cues d ! i) \<le> end' (cues d ! i)" by simp
  show "\<forall>j<i. \<not> (start (cues d ! j) \<le> end' (cues d ! i) \<and> end' (cues d ! i) \<le> end' (cues d ! j))"
  proof (intro allI impI)
    fix j assume j: "j < i"
    have "end' (cues d ! j) \<le> start (cues d ! i)"
      using chronological_order [OF assms(1) j assms(2)] .
    moreover have "start (cues d ! i) < end' (cues d ! i)"
      using chronological_nth [OF assms] by simp
    ultimately show "\<not> (start (cues d ! j) \<le> end' (cues d ! i) \<and> end' (cues d ! i) \<le> end' (cues d ! j))"
      by linarith
  qed
qed

lemma activeCue_gap:
  assumes "chronological (cues d)" "i + 1 < length (cues d)"
    and "end' (cues d ! i) < t" "t < start (cues d ! (i + 1))"
  shows "activeCue d t = ''''"
proof (rule activeCue_none, rule ballI)
  fix c assume "c \<in> set (cues d)"
  then obtain j where j: "j < length (cues d)" "c = cues d ! j"
    by (auto simp: in_set_conv_nth)
  show "\<not> (start c \<le> t \<and> t \<le> end' c)"
  proof (cases "j \<le> i")
    case True
    have "end' (cues d ! j) \<le> end' (cues d ! i)"
    proof (cases "j = i")
      case True then show ?thesis by simp
    next
      case False
      then have ji: "j < i" using True by simp
      have "i < length (cues d)" using assms(2) by simp
      from chronological_order [OF assms(1) ji this] chronological_nth [OF assms(1) this]
      show ?thesis by linarith
    qed
    then show ?thesis using assms(3) j(2) by simp
  next
    case False
    have "start (cues d ! (i + 1)) \<le> start (cues d ! j)"
    proof (cases "j = i + 1")
      case True then show ?thesis by simp
    next
      case F: False
      then have ij: "i + 1 < j" using False by simp
      from chronological_order [OF assms(1) ij j(1)] chronological_nth [OF assms(1) assms(2)]
      show ?thesis by linarith
    qed
    then show ?thesis using assms(4) j(2) by simp
  qed
qed

lemma handleVideoTimeUpdate_shown:
  "subtitleData st = Some d \<Longrightarrow> showSubtitles st \<Longrightarrow>
     currentSubtitle (handleVideoTimeUpdate (Some t) st) = activeCue d t"
  by (simp add: handleVideoTimeUpdate_def Let_def)



lemma chronological_makeCues_en: "chronological (makeCues texts_en)"
proof -
  have "makeCues texts_en = map (blockCue (\<lambda>i. texts_en ! i)) [0..<length texts_en]"
    by (rule makeCues_blockCue) (simp add: texts_en_def)
  moreover have "length texts_en = 5" by (simp add: texts_en_def)
  ultimately show ?thesis by (simp add: upt_5 blockCue_def)
qed

section \<open>Evaluating runs of the component\<close>

lemmas component_defs =
  run_def step_def handleFileSelect_def uploadVideo_def logToConsole_def toast_def setTimer_def
  issue_def initial_def Let_def settle_def uploadVideo_resolved_def uploadVideo_rejected_def
  clearInterval_def startStatusCheck_def checkStatus_def checkStatus_resolved_def
  checkStatus_rejected_def noProgress_def fire_def generateAdvancedSubtitles_def stageDone_def
  stages_def processVideo_def processVideo_resolved_def processVideo_rejected_def
  setProgress_def errorMessage_def cleanup_def toggleSubtitles_def

lemma makeCues_en:
  "makeCues texts_en =
     [\<lparr>start = 0, end' = 7 / 2, text' = ''Welcome to this video demonstration.''\<rparr>,
      \<lparr>start = 4, end' = 15 / 2, text' = ''This showcases our advanced subtitle system.''\<rparr>,
      \<lparr>start = 8, end' = 23 / 2, text' = ''Powered by OpenAI Whisper technology.''\<rparr>,
      \<lparr>start = 12, end' = 31 / 2, text' = ''With precise word-level timing synchronization.''\<rparr>,
      \<lparr>start = 16, end' = 39 / 2, text' = ''Supporting multiple languages and styles.''\<rparr>]"
proof -
  have "makeCues texts_en = map (blockCue (\<lambda>i. texts_en ! i)) [0..<length texts_en]"
    by (rule makeCues_blockCue) (simp add: texts_en_def)
  moreover have "length texts_en = 5" by (simp add: texts_en_def)
  ultimately show ?thesis by (simp add: upt_5 blockCue_def texts_en_def)
qed

lemma watching_subtitles:
  "subtitleData watching =
     Some \<lparr>language = ''en'', cues = makeCues texts_en, srt = encodeSRT (makeCues texts_en)\<rparr>"
  "showSubtitles watching" "currentSubtitle watching = ''''"
  by (simp_all add: watching_def component_defs demoFile_def demoSize_def
      generate_supported [OF map_of_subtitleTexts_en] getLanguageName_def languageOptions_def)

section \<open>Facts about the scenarios\<close>

text \<open>The arithmetic of the two simulated progress ramps in the scenarios.\<close>

lemma ramp_increment: "fmul (15 / 16) 10 = 75 / 8"
  by code_simp

lemma ramp_progress:
  "fadd 0 (75 / 8) = 75 / 8" "fadd (75 / 8) (75 / 8) = 75 / 4"
  "fadd (75 / 4) (75 / 8) = 225 / 8" "fadd (225 / 8) (75 / 8) = 75 / 2"
  "fadd (75 / 2) (75 / 8) = 375 / 8" "fadd (375 / 8) (75 / 8) = 225 / 4"
  "fadd (225 / 4) (75 / 8) = 525 / 8" "fadd (525 / 8) (75 / 8) = 75"
  "fadd 75 (75 / 8) = 675 / 8" "fadd (675 / 8) (75 / 8) = 375 / 4"
  "fadd (375 / 4) (75 / 8) = 825 / 8"
  by code_simp+

lemma upload_ramp_progress: "fmul (1 / 2) 15 = 15 / 2" "fadd 0 (15 / 2) = 15 / 2"
  by code_simp+

lemmas scenario_defs = component_defs demoFile_def nextFile_def demoSize_def jobStatus_def
  statusTimers_def statusFetches_def isCheckStatus_def

lemma twoUploads_state:
  "timers twoUploads =
     [\<lparr>tid = 2, delay = 2000, repeating = True, task = CheckStatus ''v1''\<rparr>,
      \<lparr>tid = 4, delay = 2000, repeating = True, task = CheckStatus ''v2''\<rparr>]"
  "statusCheckIntervalRef twoUploads = Some 4"
  "uploadedVideoId twoUploads = Some ''v2''"
  by (simp_all add: twoUploads_def scenario_defs)

lemma reprocessed_state:
  "timers reprocessed =
     [\<lparr>tid = 2, delay = 2000, repeating = True, task = CheckStatus ''v1''\<rparr>,
      \<lparr>tid = 4, delay = 2000, repeating = True, task = CheckStatus ''v1''\<rparr>]"
  "statusCheckIntervalRef reprocessed = Some 4"
  "uploadedVideoId reprocessed = Some ''v1''"
  "pending reprocessed =
     [\<lparr>cid = 3, request = GetVideoStatusRequest ''v1'', continuation = AfterStatus\<rparr>]"
  "apiLog reprocessed =
     [UploadVideoRequest demoFile, GetVideoStatusRequest ''v1'',
      ProcessVideoRequest ''v1'' [''cut_silence'', ''enhance_audio''],
      GetVideoStatusRequest ''v1'']"
  by (simp_all add: reprocessed_def scenario_defs processingTick_def ramp_increment
      ramp_progress)

lemma completed_state:
  "timers completed = [\<lparr>tid = 2, delay = 2000, repeating = True, task = CheckStatus ''v1''\<rparr>]"
  "statusCheckIntervalRef completed = None"
  "map_option status (videoData completed) = Some ''completed''"
  "apiLog completed = apiLog reprocessed"
  by (simp_all add: completed_def scenario_defs reprocessed_state)

section \<open>The SRT encoder (C2)\<close>





lemma formatSRTTime_100_hours: "formatSRTTime 360000 = ''100:00:00,000''"
  by code_simp

text \<open>
  Two times next to a millisecond boundary. The literal \<^verbatim>\<open>4.1\<close> denotes the binary64
  value just below 4.1, and its milliseconds are 99. The literal \<^verbatim>\<open>0.009\<close> denotes a value
  just below 0.009, but the product with 1000 rounds to 9 exactly.
\<close>

lemma formatSRTTime_4_1: "formatSRTTime (binary64 (41 / 10)) = ''00:00:04,099''"
  by code_simp

lemma formatSRTTime_0_009:
  "formatSRTTime (binary64 (9 / 1000)) = ''00:00:00,009'' \<and> binary64 (9 / 1000) < 9 / 1000"
  by code_simp



section \<open>Subtitle generation (C3, C4, C10)\<close>

text \<open>
  C3. For every language code of the canned table, generation yields a track with one cue
  per line of that language's list, cue \<open>i\<close> spanning from \<open>4 i\<close> to \<open>4 (i + 1) - 1/2\<close>
  seconds with line \<open>i\<close> as its text; a code outside the table (that is not the name of a
  member of \<^verbatim>\<open>Object.prototype\<close>) yields the cues of the English list. For \<^verbatim>\<open>en\<close> there are
  5 cues, cue 0 is \<open>{start: 0, end: 3.5, text: Welcome to this video demonstration.}\<close>, and
  the SRT text starts with the block of that cue.
\<close>

theorem generateMockSubtitleData_cues:
  "(\<forall>lang texts. map_of subtitleTexts lang = Some texts \<longrightarrow>
      (\<exists>d. generateMockSubtitleData lang = Inr d \<and> length (cues d) = length texts \<and>
           (\<forall>i<length texts.
              cues d ! i =
                \<lparr>start = of_nat i * 4, end' = of_nat (i + 1) * 4 - 1 / 2, text' = texts ! i\<rparr>))) \<and>
   (\<forall>lang. map_of subtitleTexts lang = None \<and> lang \<notin> set objectPrototypeKeys \<longrightarrow>
      (\<exists>d. generateMockSubtitleData lang = Inr d \<and> length (cues d) = length texts_en \<and>
           (\<forall>i<length texts_en.
              cues d ! i =
                \<lparr>start = of_nat i * 4, end' = of_nat (i + 1) * 4 - 1 / 2,
                 text' = texts_en ! i\<rparr>))) \<and>
   (\<exists>d. generateMockSubtitleData ''en'' = Inr d \<and> length (cues d) = 5 \<and>
        cues d ! 0 =
          \<lparr>start = 0, end' = 7 / 2, text' = ''Welcome to this video demonstration.''\<rparr> \<and>
        prefix (''1'' @ [CHR 0x0A] @ ''00:00:00,000 --> 00:00:03,500'' @ [CHR 0x0A] @
                ''Welcome to this video demonstration.'' @ [CHR 0x0A])
          (srt d))"
proof (intro conjI allI impI)
  fix lang texts assume a: "map_of subtitleTexts lang = Some texts"
  have l: "length texts < 2 ^ 32" using subtitleTexts_length [OF a] by simp
  show "\<exists>d. generateMockSubtitleData lang = Inr d \<and> length (cues d) = length texts \<and>
           (\<forall>i<length texts.
              cues d ! i =
                \<lparr>start = of_nat i * 4, end' = of_nat (i + 1) * 4 - 1 / 2, text' = texts ! i\<rparr>)"
    unfolding generate_supported [OF a]
    by (simp add: length_makeCues makeCues_nth [OF _ l])
next
  fix lang assume "map_of subtitleTexts lang = None \<and> lang \<notin> set objectPrototypeKeys"
  then have a: "map_of subtitleTexts lang = None" "lang \<notin> set objectPrototypeKeys" by simp_all
  have l: "length texts_en < 2 ^ 32"
    using subtitleTexts_length [OF map_of_subtitleTexts_en] by simp
  show "\<exists>d. generateMockSubtitleData lang = Inr d \<and> length (cues d) = length texts_en \<and>
           (\<forall>i<length texts_en.
              cues d ! i =
                \<lparr>start = of_nat i * 4, end' = of_nat (i + 1) * 4 - 1 / 2,
                 text' = texts_en ! i\<rparr>)"
    unfolding generate_fallback [OF a]
    by (simp add: length_makeCues makeCues_nth [OF _ l])
next
  have l: "length texts_en = 5" using subtitleTexts_length [OF map_of_subtitleTexts_en] .
  have t: "texts_en ! 0 = ''Welcome to this video demonstration.''" by (simp add: texts_en_def)
  have "makeCues texts_en ! 0 =
      \<lparr>start = of_nat 0 * 4, end' = of_nat (0 + 1) * 4 - 1 / 2, text' = texts_en ! 0\<rparr>"
    by (rule makeCues_nth) (simp_all add: l)
  then have c: "makeCues texts_en ! 0 =
      \<lparr>start = 0, end' = 7 / 2, text' = ''Welcome to this video demonstration.''\<rparr>"
    by (simp add: t)
  show "\<exists>d. generateMockSubtitleData ''en'' = Inr d \<and> length (cues d) = 5 \<and>
        cues d ! 0 =
          \<lparr>start = 0, end' = 7 / 2, text' = ''Welcome to this video demonstration.''\<rparr> \<and>
        prefix (''1'' @ [CHR 0x0A] @ ''00:00:00,000 --> 00:00:03,500'' @ [CHR 0x0A] @
                ''Welcome to this video demonstration.'' @ [CHR 0x0A])
          (srt d)"
    unfolding generate_supported [OF map_of_subtitleTexts_en]
    using c srt_en_prefix by (simp add: length_makeCues l)
qed

theorem generateMockSubtitleData_cues_witness:
  "map_of subtitleTexts ''es'' = Some texts_es \<and> 1 < length texts_es \<and>
   (\<exists>d. generateMockSubtitleData ''es'' = Inr d \<and> length (cues d) = 5 \<and>
        cues d ! 1 = \<lparr>start = 4, end' = 15 / 2, text' = texts_es ! 1\<rparr>) \<and>
   map_of subtitleTexts ''it'' = None \<and> ''it'' \<notin> set objectPrototypeKeys \<and>
   4 < length texts_en \<and>
   (\<exists>d. generateMockSubtitleData ''it'' = Inr d \<and>
        cues d ! 4 =
          \<lparr>start = 16, end' = 39 / 2, text' = ''Supporting multiple languages and styles.''\<rparr>)"
proof -
  have h1: "map_of subtitleTexts ''es'' = Some texts_es" by (simp add: subtitleTexts_def)
  have l1: "length texts_es = 5" by (simp add: texts_es_def)
  have h2: "map_of subtitleTexts ''it'' = None \<and> ''it'' \<notin> set objectPrototypeKeys"
    by (simp add: subtitleTexts_def objectPrototypeKeys_def)
  have l2: "length texts_en = 5" by (simp add: texts_en_def)
  have t: "texts_en ! 4 = ''Supporting multiple languages and styles.''"
    by (simp add: texts_en_def)
  from generateMockSubtitleData_cues h1 obtain d where
    d: "generateMockSubtitleData ''es'' = Inr d" "length (cues d) = length texts_es"
      "\<forall>i<length texts_es. cues d ! i =
         \<lparr>start = of_nat i * 4, end' = of_nat (i + 1) * 4 - 1 / 2, text' = texts_es ! i\<rparr>"
    by blast
  from d(3) l1 have "cues d ! 1 = \<lparr>start = 4, end' = 15 / 2, text' = texts_es ! 1\<rparr>"
    by simp
  with d(1,2) l1 have a: "\<exists>d. generateMockSubtitleData ''es'' = Inr d \<and> length (cues d) = 5 \<and>
        cues d ! 1 = \<lparr>start = 4, end' = 15 / 2, text' = texts_es ! 1\<rparr>"
    by simp
  from generateMockSubtitleData_cues h2 obtain e where
    e: "generateMockSubtitleData ''it'' = Inr e"
      "\<forall>i<length texts_en. cues e ! i =
         \<lparr>start = of_nat i * 4, end' = of_nat (i + 1) * 4 - 1 / 2, text' = texts_en ! i\<rparr>"
    by blast
  from e(2) l2 t have "cues e ! 4 =
      \<lparr>start = 16, end' = 39 / 2, text' = ''Supporting multiple languages and styles.''\<rparr>"
    by simp
  with e(1) have b: "\<exists>d. generateMockSubtitleData ''it'' = Inr d \<and>
        cues d ! 4 =
          \<lparr>start = 16, end' = 39 / 2, text' = ''Supporting multiple languages and styles.''\<rparr>"
    by simp
  from h1 l1 a h2 l2 b show ?thesis by simp
qed

text \<open>
  C4. The reference parser applied to the SRT text of a generated track returns exactly
  the cues of the track: the position of each block, both times and the text. The
  generated times are whole multiples of 500 ms, so that nothing is lost in the
  truncation to milliseconds.
\<close>

theorem generated_srt_round_trip:
  "\<forall>lang d. generateMockSubtitleData lang = Inr d \<longrightarrow>
     decodeSRT (srt d) = Some (cues d) \<and>
     (\<forall>c\<in>set (cues d). of_int \<lfloor>start c * 1000\<rfloor> / 1000 = start c \<and>
                       of_int \<lfloor>end' c * 1000\<rfloor> / 1000 = end' c)"
proof (intro allI impI conjI ballI)
  fix lang d assume g: "generateMockSubtitleData lang = Inr d"
  then show "decodeSRT (srt d) = Some (cues d)" by (rule generated_round_trip)
  fix c assume c: "c \<in> set (cues d)"
  obtain texts where d: "cues d = makeCues texts" "length texts = 5"
    using g subtitleTexts_length subtitleTexts_length [OF map_of_subtitleTexts_en]
    by (cases "map_of subtitleTexts lang")
      (auto simp: generateMockSubtitleData_def split: if_splits)
  from c d obtain i where i: "i < length texts" "c = makeCues texts ! i"
    by (auto simp: in_set_conv_nth length_makeCues)
  have l: "length texts < 2 ^ 32" using d(2) by simp
  have s: "start c = of_nat i * 4" "end' c = of_nat (i + 1) * 4 - 1 / 2"
    unfolding i(2) makeCues_nth [OF i(1) l] by simp_all
  have "start c * 1000 = of_int (int (4000 * i))" by (simp add: s)
  then have "\<lfloor>start c * 1000\<rfloor> = int (4000 * i)" by (simp only: floor_of_int)
  then show "of_int \<lfloor>start c * 1000\<rfloor> / 1000 = start c" by (simp add: s)
  have "end' c * 1000 = of_int (int (4000 * i + 3500))" by (simp add: s)
  then have "\<lfloor>end' c * 1000\<rfloor> = int (4000 * i + 3500)" by (simp only: floor_of_int)
  then show "of_int \<lfloor>end' c * 1000\<rfloor> / 1000 = end' c" by (simp add: s field_simps)
qed

theorem generated_srt_round_trip_witness:
  "(\<exists>d. generateMockSubtitleData ''ur'' = Inr d \<and> decodeSRT (srt d) = Some (cues d) \<and>
        cues d \<noteq> [] \<and>
        (\<forall>c\<in>set (cues d). of_int \<lfloor>end' c * 1000\<rfloor> / 1000 = end' c))"
proof -
  have "map_of subtitleTexts ''ur'' = Some texts_ur" by (simp add: subtitleTexts_def)
  then have g: "generateMockSubtitleData ''ur'' =
      Inr \<lparr>language = ''ur'', cues = makeCues texts_ur, srt = encodeSRT (makeCues texts_ur)\<rparr>"
    by (rule generate_supported)
  have "length (makeCues texts_ur) = 5" by (simp add: length_makeCues texts_ur_def)
  then have n: "makeCues texts_ur \<noteq> []" by auto
  from generated_srt_round_trip g n show ?thesis by fastforce
qed

text \<open>
  C10. A code outside the canned table (and not the name of a member of
  \<^verbatim>\<open>Object.prototype\<close>) yields the track generated for \<^verbatim>\<open>en\<close> with the language field
  replaced by the requested code: English texts labelled with the unsupported code. The
  codes of the language selector without a canned list are it, pt, ru, ja, ko and zh.
\<close>

theorem generateMockSubtitleData_fallback:
  "(\<forall>lang. lang \<notin> set [''en'', ''ur'', ''ru-ur'', ''es'', ''fr'', ''de''] \<and>
           lang \<notin> set objectPrototypeKeys \<longrightarrow>
      (\<exists>d. generateMockSubtitleData ''en'' = Inr d \<and> language d = ''en'' \<and>
           map text' (cues d) = texts_en \<and>
           generateMockSubtitleData lang = Inr (d\<lparr>language := lang\<rparr>))) \<and>
   filter (\<lambda>code. map_of subtitleTexts code = None) (map fst languageOptions) =
     [''it'', ''pt'', ''ru'', ''ja'', ''ko'', ''zh''] \<and>
   (\<forall>lang\<in>set [''it'', ''pt'', ''ru'', ''ja'', ''ko'', ''zh''].
      \<exists>d. generateMockSubtitleData lang = Inr d \<and> language d = lang \<and>
          map text' (cues d) = texts_en)"
proof -
  have m: "map text' (makeCues texts_en) = texts_en"
    by (rule nth_equalityI)
      (simp_all add: length_makeCues makeCues_def nth_enumerate_eq)
  have 1: "\<exists>d. generateMockSubtitleData ''en'' = Inr d \<and> language d = ''en'' \<and>
           map text' (cues d) = texts_en \<and>
           generateMockSubtitleData lang = Inr (d\<lparr>language := lang\<rparr>)"
    if "lang \<notin> set [''en'', ''ur'', ''ru-ur'', ''es'', ''fr'', ''de'']"
      "lang \<notin> set objectPrototypeKeys" for lang
  proof -
    from that(1) have n: "map_of subtitleTexts lang = None"
      unfolding map_of_subtitleTexts_None .
    show ?thesis
      unfolding generate_supported [OF map_of_subtitleTexts_en] generate_fallback [OF n that(2)]
      by (simp add: m)
  qed
  have 2: "filter (\<lambda>code. map_of subtitleTexts code = None) (map fst languageOptions) =
     [''it'', ''pt'', ''ru'', ''ja'', ''ko'', ''zh'']"
    by (simp add: languageOptions_def subtitleTexts_def)
  have 3: "\<exists>d. generateMockSubtitleData lang = Inr d \<and> language d = lang \<and>
          map text' (cues d) = texts_en"
    if "lang \<in> set [''it'', ''pt'', ''ru'', ''ja'', ''ko'', ''zh'']" for lang
  proof -
    from that have "lang \<notin> set [''en'', ''ur'', ''ru-ur'', ''es'', ''fr'', ''de'']"
      "lang \<notin> set objectPrototypeKeys"
      by (auto simp: objectPrototypeKeys_def)
    from 1 [OF this] show ?thesis by auto
  qed
  from 1 2 3 show ?thesis by blast
qed

theorem generateMockSubtitleData_fallback_witness:
  "''ja'' \<notin> set [''en'', ''ur'', ''ru-ur'', ''es'', ''fr'', ''de''] \<and>
   ''ja'' \<notin> set objectPrototypeKeys \<and>
   ''ja'' \<in> set [''it'', ''pt'', ''ru'', ''ja'', ''ko'', ''zh''] \<and>
   (\<exists>d. generateMockSubtitleData ''ja'' = Inr d \<and> language d = ''ja'' \<and>
        map text' (cues d) = texts_en \<and>
        generateMockSubtitleData ''en'' = Inr (d\<lparr>language := ''en''\<rparr>))"
proof -
  have h: "''ja'' \<notin> set [''en'', ''ur'', ''ru-ur'', ''es'', ''fr'', ''de''] \<and>
      ''ja'' \<notin> set objectPrototypeKeys"
    by (simp add: objectPrototypeKeys_def)
  have h': "''ja'' \<in> set [''it'', ''pt'', ''ru'', ''ja'', ''ko'', ''zh'']" by simp
  from generateMockSubtitleData_fallback h obtain d where
    d: "generateMockSubtitleData ''en'' = Inr d" "language d = ''en''"
      "map text' (cues d) = texts_en"
      "generateMockSubtitleData ''ja'' = Inr (d\<lparr>language := ''ja''\<rparr>)"
    by blast
  from d have "generateMockSubtitleData ''ja'' = Inr (d\<lparr>language := ''ja''\<rparr>) \<and>
      language (d\<lparr>language := ''ja''\<rparr>) = ''ja'' \<and>
      map text' (cues (d\<lparr>language := ''ja''\<rparr>)) = texts_en \<and>
      generateMockSubtitleData ''en'' = Inr ((d\<lparr>language := ''ja''\<rparr>)\<lparr>language := ''en''\<rparr>)"
    by simp
  with h h' show ?thesis by blast
qed

section \<open>Playback (C5, C9)\<close>

text \<open>
  C5. For every track and playback time, the lookup returns the text of the first cue,
  in the order of the track, with \<open>start \<le> t \<le> end\<close>, both ends included, and the empty
  string when no cue matches. On a track that satisfies the invariant of the data model
  (chronological, not overlapping) a time equal to the end of a cue resolves to that cue,
  and a time strictly between the end of a cue and the start of the next one resolves to
  the empty string. While subtitles are shown, this is the text that the time-update
  handler stores.
\<close>

theorem activeCue_lookup:
  "(\<forall>d t i. i < length (cues d) \<and> start (cues d ! i) \<le> t \<and> t \<le> end' (cues d ! i) \<and>
       (\<forall>j<i. \<not> (start (cues d ! j) \<le> t \<and> t \<le> end' (cues d ! j))) \<longrightarrow>
       activeCue d t = text' (cues d ! i)) \<and>
   (\<forall>d t. (\<forall>c\<in>set (cues d). \<not> (start c \<le> t \<and> t \<le> end' c)) \<longrightarrow> activeCue d t = '''') \<and>
   (\<forall>d i. chronological (cues d) \<and> i < length (cues d) \<longrightarrow>
       activeCue d (end' (cues d ! i)) = text' (cues d ! i)) \<and>
   (\<forall>d t i. chronological (cues d) \<and> i + 1 < length (cues d) \<and>
       end' (cues d ! i) < t \<and> t < start (cues d ! (i + 1)) \<longrightarrow> activeCue d t = '''') \<and>
   (\<forall>st d t. subtitleData st = Some d \<and> showSubtitles st \<longrightarrow>
       currentSubtitle (handleVideoTimeUpdate (Some t) st) = activeCue d t)"
  using activeCue_first activeCue_none activeCue_end activeCue_gap handleVideoTimeUpdate_shown
  by (intro conjI allI impI; (elim conjE)?) blast+

theorem activeCue_lookup_witness:
  "subtitleData watching =
     Some \<lparr>language = ''en'', cues = makeCues texts_en, srt = encodeSRT (makeCues texts_en)\<rparr> \<and>
   showSubtitles watching \<and> chronological (makeCues texts_en) \<and>
   1 < length (makeCues texts_en) \<and>
   end' (makeCues texts_en ! 0) = 7 / 2 \<and> start (makeCues texts_en ! 1) = 4 \<and>
   currentSubtitle (handleVideoTimeUpdate (Some (7 / 2)) watching) =
     ''Welcome to this video demonstration.'' \<and>
   currentSubtitle (handleVideoTimeUpdate (Some (15 / 4)) watching) = '''' \<and>
   currentSubtitle (handleVideoTimeUpdate (Some 4) watching) =
     ''This showcases our advanced subtitle system.''"
proof -
  let ?d = "\<lparr>language = ''en'', cues = makeCues texts_en, srt = encodeSRT (makeCues texts_en)\<rparr>"
  note first = activeCue_lookup [THEN conjunct1, rule_format]
  note at_end = activeCue_lookup [THEN conjunct2, THEN conjunct2, THEN conjunct1, rule_format]
  note gap = activeCue_lookup [THEN conjunct2, THEN conjunct2, THEN conjunct2, THEN conjunct1,
      rule_format]
  note handler = activeCue_lookup [THEN conjunct2, THEN conjunct2, THEN conjunct2,
      THEN conjunct2, rule_format]
  note w = watching_subtitles(1,2)
  have c: "chronological (cues ?d)" using chronological_makeCues_en by simp
  have l: "0 < length (cues ?d)" "0 + 1 < length (cues ?d)" "1 < length (cues ?d)"
    by (simp_all add: makeCues_en)
  have v: "end' (cues ?d ! 0) = 7 / 2" "start (cues ?d ! (0 + 1)) = 4"
    "text' (cues ?d ! 0) = ''Welcome to this video demonstration.''"
    "start (cues ?d ! 1) = 4" "end' (cues ?d ! 1) = 15 / 2"
    "text' (cues ?d ! 1) = ''This showcases our advanced subtitle system.''"
    by (simp_all add: makeCues_en)
  have "activeCue ?d (end' (cues ?d ! 0)) = text' (cues ?d ! 0)"
    by (rule at_end) (intro conjI c l(1))
  then have a1: "activeCue ?d (7 / 2) = ''Welcome to this video demonstration.''"
    unfolding v .
  have g: "end' (cues ?d ! 0) < 15 / 4" "(15 / 4 :: rat) < start (cues ?d ! (0 + 1))"
    unfolding v by simp_all
  have a2: "activeCue ?d (15 / 4) = []"
    by (rule gap [where i = 0]) (intro conjI c l(2) g)
  have f: "start (cues ?d ! 1) \<le> 4" "(4::rat) \<le> end' (cues ?d ! 1)"
    "\<forall>j<1. \<not> (start (cues ?d ! j) \<le> 4 \<and> 4 \<le> end' (cues ?d ! j))"
    unfolding v by (simp_all add: makeCues_en)
  have "activeCue ?d 4 = text' (cues ?d ! 1)"
    by (rule first) (intro conjI l(3) f)
  then have a3: "activeCue ?d 4 = ''This showcases our advanced subtitle system.''"
    unfolding v .
  have h: "currentSubtitle (handleVideoTimeUpdate (Some t) watching) = activeCue ?d t" for t
    by (rule handler) (intro conjI w)
  have e: "end' (makeCues texts_en ! 0) = 7 / 2" "start (makeCues texts_en ! 1) = 4"
    "1 < length (makeCues texts_en)"
    by (simp_all add: makeCues_en)
  show ?thesis
    unfolding h a1 a2 a3
    by (intro conjI w chronological_makeCues_en e refl)
qed




text \<open>
  C1 does not hold of the code when two polling runs overlap. What holds of every polling
  run: it fetches the status at once and installs an interval of 2000 ms with the same
  callback; a fetched status other than \<^verbatim>\<open>completed\<close> and \<^verbatim>\<open>failed\<close> leaves the timers as
  they are; a terminal status cancels the interval that \<^verbatim>\<open>statusCheckIntervalRef\<close> holds at
  that moment and empties the reference. That interval is the poller's own only if no poll
  has been started since, because \<^verbatim>\<open>startStatusCheck\<close> overwrites the reference and cancels
  nothing. In the run \<open>completed\<close>, where the progress ramp of \<^verbatim>\<open>processVideo\<close> has started a
  second poller of the video, the job is found completed, the second poller is cancelled,
  and the first one is still active: its next callback fetches the status of the completed
  job once more.
\<close>

theorem status_poller:
  "apiLog (startStatusCheck videoId st) = apiLog st @ [GetVideoStatusRequest videoId] \<and>
   last (timers (startStatusCheck videoId st)) =
     \<lparr>tid = nextTimerId st, delay = 2000, repeating = True, task = CheckStatus videoId\<rparr> \<and>
   (status data \<noteq> ''completed'' \<and> status data \<noteq> ''failed'' \<longrightarrow>
      timers (checkStatus_resolved data st) = timers st \<and>
      statusCheckIntervalRef (checkStatus_resolved data st) = statusCheckIntervalRef st) \<and>
   ((status data = ''completed'' \<or> status data = ''failed'') \<and>
    statusCheckIntervalRef st = Some i \<and> i \<noteq> 0 \<longrightarrow>
      timers (checkStatus_resolved data st) = filter (\<lambda>t. tid t \<noteq> i) (timers st) \<and>
      statusCheckIntervalRef (checkStatus_resolved data st) = None) \<and>
   map_option status (videoData completed) = Some ''completed'' \<and>
   statusCheckIntervalRef completed = None \<and>
   statusTimers completed =
     [\<lparr>tid = 2, delay = 2000, repeating = True, task = CheckStatus ''v1''\<rparr>] \<and>
   statusFetches ''v1'' completed = 2 \<and>
   statusFetches ''v1'' (run Pages demoSize [Fire 2 0] completed) = 3"
proof -
  have "apiLog (startStatusCheck videoId st) = apiLog st @ [GetVideoStatusRequest videoId]"
    "last (timers (startStatusCheck videoId st)) =
      \<lparr>tid = nextTimerId st, delay = 2000, repeating = True, task = CheckStatus videoId\<rparr>"
    by (simp_all add: startStatusCheck_def checkStatus_def setTimer_def issue_def Let_def)
  moreover have "status data \<noteq> ''completed'' \<and> status data \<noteq> ''failed'' \<longrightarrow>
      timers (checkStatus_resolved data st) = timers st \<and>
      statusCheckIntervalRef (checkStatus_resolved data st) = statusCheckIntervalRef st"
    by (simp add: checkStatus_resolved_def Let_def)
  moreover have "(status data = ''completed'' \<or> status data = ''failed'') \<and>
    statusCheckIntervalRef st = Some i \<and> i \<noteq> 0 \<longrightarrow>
      timers (checkStatus_resolved data st) = filter (\<lambda>t. tid t \<noteq> i) (timers st) \<and>
      statusCheckIntervalRef (checkStatus_resolved data st) = None"
    by (auto simp add: checkStatus_resolved_def Let_def clearInterval_def logToConsole_def)
  moreover have "statusTimers completed =
     [\<lparr>tid = 2, delay = 2000, repeating = True, task = CheckStatus ''v1''\<rparr>]"
    by (simp add: statusTimers_def isCheckStatus_def completed_state)
  moreover have "statusFetches ''v1'' completed = 2"
    by (simp add: statusFetches_def completed_state reprocessed_state)
  moreover have "statusFetches ''v1'' (run Pages demoSize [Fire 2 0] completed) = 3"
    by (simp add: statusFetches_def run_def step_def fire_def checkStatus_def issue_def Let_def
        completed_state reprocessed_state)
  ultimately show ?thesis
    by (intro conjI completed_state(2,3))
qed

theorem status_poller_witness:
  "status (jobStatus ''v1'' ''uploaded'') \<noteq> ''completed'' \<and>
   status (jobStatus ''v1'' ''uploaded'') \<noteq> ''failed'' \<and>
   timers (checkStatus_resolved (jobStatus ''v1'' ''uploaded'') reprocessed) = timers reprocessed \<and>
   status (jobStatus ''v1'' ''failed'') = ''failed'' \<and>
   statusCheckIntervalRef reprocessed = Some 4 \<and>
   timers (checkStatus_resolved (jobStatus ''v1'' ''failed'') reprocessed) =
     [\<lparr>tid = 2, delay = 2000, repeating = True, task = CheckStatus ''v1''\<rparr>] \<and>
   statusCheckIntervalRef (checkStatus_resolved (jobStatus ''v1'' ''failed'') reprocessed) = None"
proof -
  note running =
    status_poller [THEN conjunct2, THEN conjunct2, THEN conjunct1, rule_format]
  note terminal =
    status_poller [THEN conjunct2, THEN conjunct2, THEN conjunct2, THEN conjunct1, rule_format]
  have u: "status (jobStatus ''v1'' ''uploaded'') \<noteq> ''completed''"
    "status (jobStatus ''v1'' ''uploaded'') \<noteq> ''failed''"
    by (simp_all add: jobStatus_def)
  have f: "status (jobStatus ''v1'' ''failed'') = ''failed''"
    by (simp add: jobStatus_def)
  have r: "statusCheckIntervalRef reprocessed = Some 4" "(4::nat) \<noteq> 0"
    by (simp_all add: reprocessed_state)
  have a: "timers (checkStatus_resolved (jobStatus ''v1'' ''uploaded'') reprocessed) =
      timers reprocessed"
    using running [of "jobStatus ''v1'' ''uploaded''" reprocessed] u by simp
  have "timers (checkStatus_resolved (jobStatus ''v1'' ''failed'') reprocessed) =
        filter (\<lambda>t. tid t \<noteq> 4) (timers reprocessed) \<and>
      statusCheckIntervalRef (checkStatus_resolved (jobStatus ''v1'' ''failed'') reprocessed) =
        None"
    by (rule terminal) (intro conjI disjI2 f r)
  then have b: "timers (checkStatus_resolved (jobStatus ''v1'' ''failed'') reprocessed) =
      [\<lparr>tid = 2, delay = 2000, repeating = True, task = CheckStatus ''v1''\<rparr>]"
    "statusCheckIntervalRef (checkStatus_resolved (jobStatus ''v1'' ''failed'') reprocessed) = None"
    by (simp_all add: reprocessed_state)
  show ?thesis by (intro conjI u f r(1) a b)
qed

text \<open>
  C6 does not hold of the code. \<^verbatim>\<open>startStatusCheck\<close> installs its interval beside the timers
  that are active and cancels none of them; the reference \<^verbatim>\<open>statusCheckIntervalRef\<close> is
  overwritten with the new identifier, so that the identifier of the interval it held is
  lost. After a second upload on the page the pollers of both videos are active, and after
  the progress ramp of \<^verbatim>\<open>processVideo\<close> has completed two pollers of the same video are
  active; in both runs the reference holds the second interval only.
\<close>

theorem startStatusCheck_leaks:
  "timers (startStatusCheck videoId st) =
     timers st @
     [\<lparr>tid = nextTimerId st, delay = 2000, repeating = True, task = CheckStatus videoId\<rparr>] \<and>
   statusCheckIntervalRef (startStatusCheck videoId st) = Some (nextTimerId st) \<and>
   statusTimers twoUploads =
     [\<lparr>tid = 2, delay = 2000, repeating = True, task = CheckStatus ''v1''\<rparr>,
      \<lparr>tid = 4, delay = 2000, repeating = True, task = CheckStatus ''v2''\<rparr>] \<and>
   statusCheckIntervalRef twoUploads = Some 4 \<and>
   uploadedVideoId twoUploads = Some ''v2'' \<and>
   statusTimers reprocessed =
     [\<lparr>tid = 2, delay = 2000, repeating = True, task = CheckStatus ''v1''\<rparr>,
      \<lparr>tid = 4, delay = 2000, repeating = True, task = CheckStatus ''v1''\<rparr>] \<and>
   statusCheckIntervalRef reprocessed = Some 4 \<and>
   uploadedVideoId reprocessed = Some ''v1''"
proof -
  have "timers (startStatusCheck videoId st) =
      timers st @
      [\<lparr>tid = nextTimerId st, delay = 2000, repeating = True, task = CheckStatus videoId\<rparr>]"
    "statusCheckIntervalRef (startStatusCheck videoId st) = Some (nextTimerId st)"
    by (simp_all add: startStatusCheck_def checkStatus_def setTimer_def issue_def Let_def)
  moreover have "statusTimers twoUploads =
     [\<lparr>tid = 2, delay = 2000, repeating = True, task = CheckStatus ''v1''\<rparr>,
      \<lparr>tid = 4, delay = 2000, repeating = True, task = CheckStatus ''v2''\<rparr>]"
    by (simp add: statusTimers_def isCheckStatus_def twoUploads_state)
  moreover have "statusTimers reprocessed =
     [\<lparr>tid = 2, delay = 2000, repeating = True, task = CheckStatus ''v1''\<rparr>,
      \<lparr>tid = 4, delay = 2000, repeating = True, task = CheckStatus ''v1''\<rparr>]"
    by (simp add: statusTimers_def isCheckStatus_def reprocessed_state)
  ultimately show ?thesis
    by (intro conjI twoUploads_state(2,3) reprocessed_state(2,3))
qed




text \<open>
  C8 does not hold of the code in one respect: the progress ramp is not cancelled. The code
  after a rejected upload logs the failure as an error, shows the toast and resets
  \<^verbatim>\<open>isUploading\<close>; it stores no job id and it leaves every timer active, the interval of the
  ramp among them, because \<^verbatim>\<open>clearInterval(progressInterval)\<close> is a statement of the
  \<^verbatim>\<open>try\<close> block after the \<^verbatim>\<open>await\<close>. In both versions of the component, after a rejected
  upload the ramp is the one active timer, and its next callback raises the upload progress
  of the upload that has failed.
\<close>

theorem uploadVideo_rejected_keeps_ramp:
  "timers (uploadVideo_rejected r st) = timers st \<and>
   uploadedVideoId (uploadVideo_rejected r st) = uploadedVideoId st \<and>
   \<not> isUploading (uploadVideo_rejected r st) \<and>
   consoleLogs (uploadVideo_rejected r st) =
     consoleLogs st @
     [\<lparr>message = ''Upload failed: '' @ errorMessage r ''Unknown error'', type' = Error\<rparr>] \<and>
   toasts (uploadVideo_rejected r st) = toasts st @ [(Error, ''Upload failed. Please try again.'')] \<and>
   timers (failedUpload v) = [\<lparr>tid = 1, delay = 200, repeating = True, task = UploadRamp\<rparr>] \<and>
   uploadedVideoId (failedUpload v) = None \<and>
   videoData (failedUpload v) = None \<and>
   \<not> isUploading (failedUpload v) \<and>
   last (consoleLogs (failedUpload v)) =
     \<lparr>message = ''Upload failed: Network Error'', type' = Error\<rparr> \<and>
   toasts (failedUpload v) = [(Error, ''Upload failed. Please try again.'')] \<and>
   uploadProgress (failedUpload v) = 0 \<and>
   uploadProgress (run v demoSize [Fire 1 (1 / 2)] (failedUpload v)) = 15 / 2"
proof -
  have general: "timers (uploadVideo_rejected r st) = timers st"
    "uploadedVideoId (uploadVideo_rejected r st) = uploadedVideoId st"
    "\<not> isUploading (uploadVideo_rejected r st)"
    "consoleLogs (uploadVideo_rejected r st) =
       consoleLogs st @
       [\<lparr>message = ''Upload failed: '' @ errorMessage r ''Unknown error'', type' = Error\<rparr>]"
    "toasts (uploadVideo_rejected r st) = toasts st @ [(Error, ''Upload failed. Please try again.'')]"
    by (simp_all add: uploadVideo_rejected_def logToConsole_def toast_def Let_def)
  have failed: "timers (failedUpload v) =
      [\<lparr>tid = 1, delay = 200, repeating = True, task = UploadRamp\<rparr>]"
    "uploadedVideoId (failedUpload v) = None"
    "videoData (failedUpload v) = None"
    "\<not> isUploading (failedUpload v)"
    "last (consoleLogs (failedUpload v)) =
       \<lparr>message = ''Upload failed: Network Error'', type' = Error\<rparr>"
    "toasts (failedUpload v) = [(Error, ''Upload failed. Please try again.'')]"
    "uploadProgress (failedUpload v) = 0"
    by (simp_all add: failedUpload_def scenario_defs)
  have "uploadProgress (run v demoSize [Fire 1 (1 / 2)] (failedUpload v)) = 15 / 2"
    by (simp add: run_def step_def fire_def failed upload_ramp_progress)
  then show ?thesis by (intro conjI general failed)
qed

end
